theory Spec2Isabelle
  imports Main "HOL-Library.AList"
begin

section \<open>Python values\<close>

text \<open>
  The repository is Python. The values that flow through the functions verified here are
  the ones \<open>json.load\<close> and \<open>tomllib.load\<close> produce: null, booleans, integers, strings,
  lists and dicts. A dict is an association list: lookup is \<open>map_of\<close> and the
  assignment \<open>d[k] = v\<close> is \<open>AList.update\<close>, which overwrites in place or appends at the
  end, as Python's insertion-ordered dicts do.
\<close>

datatype json =
    JNull
  | JBool bool
  | JInt int
  | JStr string
  | JList "json list"
  | JDict "(string \<times> json) list"

type_synonym pydict = "(string \<times> json) list"

datatype pyerr =
    KeyError string
  | AttributeError string
  | TypeError string
  | NameError string
  | ValueError string
  | IndexError string
  | OSError string

text \<open>\<open>d.get(k, default)\<close> on a dict.\<close>

definition dict_get :: "pydict \<Rightarrow> string \<Rightarrow> json \<Rightarrow> json" where
  "dict_get d k dflt = (case map_of d k of None \<Rightarrow> dflt | Some v \<Rightarrow> v)"

text \<open>\<open>d[k]\<close> on a dict: a missing key raises \<open>KeyError\<close>.\<close>

definition dict_item :: "pydict \<Rightarrow> string \<Rightarrow> pyerr + json" where
  "dict_item d k = (case map_of d k of None \<Rightarrow> Inl (KeyError k) | Some v \<Rightarrow> Inr v)"

section \<open>The account tracker (utils.py)\<close>

text \<open>
  The tracker is \<open>{"teams": {team_name: [account, ...]}, "last_updated": ...}\<close>; every
  account is a dict. The calls to \<open>datetime.now()\<close> are parameters of the model: \<open>now1\<close>
  is the first reading of the clock during the call and \<open>now2\<close> the second.
\<close>

record tracker =
  teams :: "(string \<times> pydict list) list"
  last_updated :: "string option"

text \<open>
  The loop \<open>for account in tracker["teams"][team_name]: if account["email"] == email: ...;
  return\<close>. The function \<open>f\<close> is the body's in-place update of the matching account. The
  result is \<open>Some\<close> of the updated list when an account matched (the source returns there),
  \<open>None\<close> when the loop ran to its end, and \<open>KeyError\<close> when an account before the match
  has no \<open>email\<close> key.
\<close>

fun update_first :: "(pydict \<Rightarrow> pydict) \<Rightarrow> string \<Rightarrow> pydict list \<Rightarrow> pyerr + pydict list option" where
  "update_first f email [] = Inr None"
| "update_first f email (account # rest) =
     (case dict_item account ''email'' of
        Inl e \<Rightarrow> Inl e
      | Inr v \<Rightarrow>
          if v = JStr email then Inr (Some (f account # rest))
          else (case update_first f email rest of
                  Inl e \<Rightarrow> Inl e
                | Inr None \<Rightarrow> Inr None
                | Inr (Some rest') \<Rightarrow> Inr (Some (account # rest'))))"

text \<open>\<open>if team_name not in tracker["teams"]: tracker["teams"][team_name] = []\<close>\<close>

definition ensure_team :: "(string \<times> pydict list) list \<Rightarrow> string \<Rightarrow> (string \<times> pydict list) list" where
  "ensure_team ts team_name =
     (if map_of ts team_name = None then AList.update team_name [] ts else ts)"

definition upsert_with ::
  "(pydict \<Rightarrow> pydict) \<Rightarrow> pydict \<Rightarrow> tracker \<Rightarrow> string \<Rightarrow> string \<Rightarrow> pyerr + tracker" where
  "upsert_with f new tr team_name email =
     (let ts = ensure_team (teams tr) team_name in
      case map_of ts team_name of
        None \<Rightarrow> Inl (KeyError team_name)
      | Some accounts \<Rightarrow>
          (case update_first f email accounts of
             Inl e \<Rightarrow> Inl e
           | Inr (Some accounts') \<Rightarrow> Inr (tr\<lparr>teams := AList.update team_name accounts' ts\<rparr>)
           | Inr None \<Rightarrow> Inr (tr\<lparr>teams := AList.update team_name (accounts @ [new]) ts\<rparr>)))"

definition add_account_to_tracker ::
  "tracker \<Rightarrow> string \<Rightarrow> string \<Rightarrow> string \<Rightarrow> string \<Rightarrow> string \<Rightarrow> pyerr + tracker" where
  "add_account_to_tracker tr team_name email status now1 now2 =
     upsert_with
       (\<lambda>account. AList.update ''updated_at'' (JStr now1)
                    (AList.update ''status'' (JStr status) account))
       [(''email'', JStr email), (''status'', JStr status),
        (''created_at'', JStr now1), (''updated_at'', JStr now2)]
       tr team_name email"

definition add_account_with_password ::
  "tracker \<Rightarrow> string \<Rightarrow> string \<Rightarrow> string \<Rightarrow> string \<Rightarrow> string \<Rightarrow> string \<Rightarrow> pyerr + tracker" where
  "add_account_with_password tr team_name email password status now1 now2 =
     upsert_with
       (\<lambda>account. AList.update ''updated_at'' (JStr now1)
                    (AList.update ''password'' (JStr password)
                      (AList.update ''status'' (JStr status) account)))
       [(''email'', JStr email), (''password'', JStr password), (''status'', JStr status),
        (''role'', JStr ''member''), (''created_at'', JStr now1), (''updated_at'', JStr now2)]
       tr team_name email"

text \<open>
  \<open>get_incomplete_accounts\<close>: the loop appends to \<open>incomplete\<close>; \<open>account["email"]\<close> raises
  \<open>KeyError\<close> for an account without that key, and is only evaluated for an account whose
  status is not \<open>"completed"\<close>.
\<close>

fun incomplete_loop :: "pydict list \<Rightarrow> pydict list \<Rightarrow> pyerr + pydict list" where
  "incomplete_loop incomplete [] = Inr incomplete"
| "incomplete_loop incomplete (account # rest) =
     (let status = dict_get account ''status'' (JStr '''') in
      if status \<noteq> JStr ''completed'' then
        (case dict_item account ''email'' of
           Inl e \<Rightarrow> Inl e
         | Inr em \<Rightarrow>
             incomplete_loop
               (incomplete @
                 [[(''email'', em), (''status'', status),
                   (''password'', dict_get account ''password'' (JStr '''')),
                   (''role'', dict_get account ''role'' (JStr ''member''))]])
               rest)
      else incomplete_loop incomplete rest)"

definition get_incomplete_accounts :: "tracker \<Rightarrow> string \<Rightarrow> pyerr + pydict list" where
  "get_incomplete_accounts tr team_name =
     (case map_of (teams tr) team_name of
        None \<Rightarrow> Inr []
      | Some accounts \<Rightarrow> incomplete_loop [] accounts)"

subsection \<open>Properties of tracker states, and the upsert calls as data\<close>

text \<open>
  The data model's uniqueness invariant: every account of every team carries an \<open>email\<close>
  key and no two accounts of one team carry the same email.
\<close>

definition email_of :: "pydict \<Rightarrow> json option" where
  "email_of account = map_of account ''email''"

definition accounts_wf :: "pydict list \<Rightarrow> bool" where
  "accounts_wf accounts =
     (list_all (\<lambda>a. email_of a \<noteq> None) accounts \<and> distinct (map email_of accounts))"

definition tracker_wf :: "tracker \<Rightarrow> bool" where
  "tracker_wf tr = list_all (\<lambda>p. accounts_wf (snd p)) (teams tr)"

definition team_accounts :: "tracker \<Rightarrow> string \<Rightarrow> pydict list" where
  "team_accounts tr team_name = (case map_of (teams tr) team_name of None \<Rightarrow> [] | Some l \<Rightarrow> l)"

text \<open>
  What one run of the upsert loop does to a team's list, written directly: the first
  account with the email is replaced by \<open>f\<close> of it, and \<open>new\<close> is appended when there is
  none. The lemmas below show that \<open>upsert_with\<close> computes this.
\<close>

fun upsert_list :: "(pydict \<Rightarrow> pydict) \<Rightarrow> pydict \<Rightarrow> string \<Rightarrow> pydict list \<Rightarrow> pydict list" where
  "upsert_list f new email [] = [new]"
| "upsert_list f new email (a # as) =
     (if email_of a = Some (JStr email) then f a # as else a # upsert_list f new email as)"

text \<open>
  One call of either upsert function, with its arguments and the two clock readings, and
  a sequence of calls that stops at the first exception.
\<close>

datatype upsert_call =
    AddAccount string string string string string
  | AddAccountWithPassword string string string string string string

fun call_upsert :: "tracker \<Rightarrow> upsert_call \<Rightarrow> pyerr + tracker" where
  "call_upsert tr (AddAccount team_name email status now1 now2) =
     add_account_to_tracker tr team_name email status now1 now2"
| "call_upsert tr (AddAccountWithPassword team_name email password status now1 now2) =
     add_account_with_password tr team_name email password status now1 now2"

fun call_upserts :: "tracker \<Rightarrow> upsert_call list \<Rightarrow> pyerr + tracker" where
  "call_upserts tr [] = Inr tr"
| "call_upserts tr (c # cs) =
     (case call_upsert tr c of Inl e \<Rightarrow> Inl e | Inr tr' \<Rightarrow> call_upserts tr' cs)"

fun upsert_key :: "upsert_call \<Rightarrow> string \<times> string" where
  "upsert_key (AddAccount team_name email status now1 now2) = (team_name, email)"
| "upsert_key (AddAccountWithPassword team_name email password status now1 now2) = (team_name, email)"

fun upsert_status :: "upsert_call \<Rightarrow> string" where
  "upsert_status (AddAccount team_name email status now1 now2) = status"
| "upsert_status (AddAccountWithPassword team_name email password status now1 now2) = status"

text \<open>A small tracker state used to exercise the theorems.\<close>

definition example_accounts :: "pydict list" where
  "example_accounts =
     [[(''email'', JStr ''u1@x.com''), (''status'', JStr ''completed''),
       (''password'', JStr ''pw1''), (''role'', JStr ''owner''),
       (''created_at'', JStr ''2024-01-01 00:00:00''),
       (''updated_at'', JStr ''2024-01-01 00:00:00'')],
      [(''email'', JStr ''u2@x.com''), (''status'', JStr ''invited''),
       (''created_at'', JStr ''2024-01-02 00:00:00''),
       (''updated_at'', JStr ''2024-01-02 00:00:00'')]]"

definition example_tracker :: tracker where
  "example_tracker = \<lparr>teams = [(''alpha'', example_accounts), (''beta'', [])], last_updated = None\<rparr>"

text \<open>
  The entry \<open>get_incomplete_accounts\<close> reports for an account (email, status, password,
  role, with the source's defaults), and the test it applies.
\<close>

definition incomplete_view :: "pydict \<Rightarrow> pydict" where
  "incomplete_view account =
     [(''email'', dict_get account ''email'' JNull),
      (''status'', dict_get account ''status'' (JStr '''')),
      (''password'', dict_get account ''password'' (JStr '''')),
      (''role'', dict_get account ''role'' (JStr ''member''))]"

definition is_incomplete :: "pydict \<Rightarrow> bool" where
  "is_incomplete account = (dict_get account ''status'' (JStr '''') \<noteq> JStr ''completed'')"

section \<open>More of Python: truth values, methods, strings\<close>

text \<open>Sequencing of computations that may raise: the first exception wins.\<close>

definition pybind :: "pyerr + 'a \<Rightarrow> ('a \<Rightarrow> pyerr + 'b) \<Rightarrow> pyerr + 'b" where
  "pybind m f = (case m of Inl e \<Rightarrow> Inl e | Inr x \<Rightarrow> f x)"

text \<open>The truth value of an object, as \<open>if x\<close> and \<open>not x\<close> test it.\<close>

definition truthy :: "json \<Rightarrow> bool" where
  "truthy v =
     (case v of
        JNull \<Rightarrow> False
      | JBool b \<Rightarrow> b
      | JInt i \<Rightarrow> i \<noteq> 0
      | JStr s \<Rightarrow> s \<noteq> []
      | JList l \<Rightarrow> l \<noteq> []
      | JDict d \<Rightarrow> d \<noteq> [])"

text \<open>\<open>x.get(k, default)\<close>: only a dict has the method.\<close>

definition py_get :: "json \<Rightarrow> string \<Rightarrow> json \<Rightarrow> pyerr + json" where
  "py_get x k dflt =
     (case x of JDict d \<Rightarrow> Inr (dict_get d k dflt) | _ \<Rightarrow> Inl (AttributeError ''get''))"

text \<open>\<open>for a in x\<close>: a list yields its elements, a dict its keys, a string its characters.\<close>

definition py_iter :: "json \<Rightarrow> pyerr + json list" where
  "py_iter x =
     (case x of
        JList l \<Rightarrow> Inr l
      | JDict d \<Rightarrow> Inr (map (\<lambda>p. JStr (fst p)) d)
      | JStr s \<Rightarrow> Inr (map (\<lambda>c. JStr [c]) s)
      | _ \<Rightarrow> Inl (TypeError ''not iterable''))"

text \<open>
  \<open>x.lower()\<close>: only a string has the method. Python's \<open>str.lower\<close> folds the letters of
  every alphabet; it is a parameter of the model, \<open>str_lower\<close>, a function on strings (a
  string of the model is the UTF-8 text of the Python string). What is known of it is
  what it does to a string of ASCII characters: it maps \<open>A\<close> to \<open>Z\<close> to \<open>a\<close> to \<open>z\<close> and
  leaves every other character.
\<close>

definition py_lower :: "(string \<Rightarrow> string) \<Rightarrow> json \<Rightarrow> pyerr + string" where
  "py_lower str_lower x =
     (case x of JStr s \<Rightarrow> Inr (str_lower s) | _ \<Rightarrow> Inl (AttributeError ''lower''))"

definition ascii_lower_char :: "char \<Rightarrow> char" where
  "ascii_lower_char c =
     (let n = (of_char c :: nat) in if 65 \<le> n \<and> n \<le> 90 then char_of (n + 32) else c)"

definition ascii_lower :: "string \<Rightarrow> string" where
  "ascii_lower s = map ascii_lower_char s"

definition is_ascii :: "string \<Rightarrow> bool" where
  "is_ascii s = list_all (\<lambda>c. (of_char c :: nat) < 128) s"

definition lowers_ascii :: "(string \<Rightarrow> string) \<Rightarrow> bool" where
  "lowers_ascii str_lower = (\<forall>s. is_ascii s \<longrightarrow> str_lower s = ascii_lower s)"

text \<open>\<open>s.startswith(p)\<close> and \<open>sub in s\<close> on strings.\<close>

fun starts_with :: "string \<Rightarrow> string \<Rightarrow> bool" where
  "starts_with s [] = True"
| "starts_with [] (p # ps) = False"
| "starts_with (c # cs) (p # ps) = (c = p \<and> starts_with cs ps)"

fun str_in :: "string \<Rightarrow> string \<Rightarrow> bool" where
  "str_in sub [] = (sub = [])"
| "str_in sub (c # cs) = (starts_with (c # cs) sub \<or> str_in sub cs)"

text \<open>
  \<open>needle in x\<close> for a string \<open>needle\<close>: substring test on a string, membership in a list,
  key test on a dict, \<open>TypeError\<close> elsewhere.
\<close>

definition py_contains :: "string \<Rightarrow> json \<Rightarrow> pyerr + bool" where
  "py_contains needle x =
     (case x of
        JStr s \<Rightarrow> Inr (str_in needle s)
      | JList l \<Rightarrow> Inr (JStr needle \<in> set l)
      | JDict d \<Rightarrow> Inr (map_of d needle \<noteq> None)
      | _ \<Rightarrow> Inl (TypeError ''not iterable''))"

text \<open>\<open>s.split(sep)\<close> for a separator of one character; the result is never empty.\<close>

fun split_char :: "char \<Rightarrow> string \<Rightarrow> string list" where
  "split_char sep [] = [[]]"
| "split_char sep (c # cs) =
     (if c = sep then [] # split_char sep cs
      else (case split_char sep cs of [] \<Rightarrow> [[c]] | w # ws \<Rightarrow> (c # w) # ws))"

text \<open>\<open>x.split("@")[0]\<close>: only a string has the method.\<close>

definition split_at_first :: "json \<Rightarrow> pyerr + string" where
  "split_at_first x =
     (case x of
        JStr s \<Rightarrow> (case split_char CHR ''@'' s of [] \<Rightarrow> Inl (IndexError ''list'') | w # ws \<Rightarrow> Inr w)
      | _ \<Rightarrow> Inl (AttributeError ''split''))"

text \<open>\<open>str(n)\<close> for a natural number.\<close>

fun string_of_nat :: "nat \<Rightarrow> string" where
  "string_of_nat n =
     (if n < 10 then [char_of (48 + n)]
      else string_of_nat (n div 10) @ [char_of (48 + n mod 10)])"

section \<open>Configuration (config.py)\<close>

text \<open>
  \<open>_parse_team_config(t, index)\<close>: \<open>t\<close> is one record of team.json and \<open>index\<close> its position
  (from \<open>enumerate\<close>). The result is the dict the source builds. The format is chosen by
  \<open>isinstance(t.get("account"), str)\<close>.
\<close>

definition team_default_name :: "nat \<Rightarrow> string" where
  "team_default_name index = ''Team'' @ string_of_nat (index + 1)"

definition parse_team_config :: "pydict \<Rightarrow> nat \<Rightarrow> pyerr + pydict" where
  "parse_team_config t index =
     (case dict_get t ''account'' JNull of
        JStr email \<Rightarrow>
          (let name = (if str_in ''@'' email
                       then (case split_char CHR ''@'' email of [] \<Rightarrow> [] | w # ws \<Rightarrow> w)
                       else team_default_name index);
               token = dict_get t ''token'' (JStr '''');
               authorized = dict_get t ''authorized'' (JBool False);
               cached_account_id = dict_get t ''account_id'' (JStr '''')
           in Inr [(''name'', JStr name),
                   (''account_id'', cached_account_id),
                   (''org_id'', JStr ''''),
                   (''auth_token'', token),
                   (''owner_email'', JStr email),
                   (''owner_password'', dict_get t ''password'' (JStr '''')),
                   (''needs_login'', JBool (\<not> truthy token)),
                   (''authorized'', authorized),
                   (''format'', JStr ''new''),
                   (''raw'', JDict t)])
      | _ \<Rightarrow>
          pybind (py_get (dict_get t ''user'' (JDict [])) ''email'' (JStr (team_default_name index)))
            (\<lambda>email.
          pybind (py_contains ''@'' email) (\<lambda>has_at.
          pybind (if has_at then split_at_first email else Inr (team_default_name index))
            (\<lambda>name.
          pybind (py_get (dict_get t ''account'' (JDict [])) ''id'' (JStr '''')) (\<lambda>account_id.
          pybind (py_get (dict_get t ''account'' (JDict [])) ''organizationId'' (JStr ''''))
            (\<lambda>org_id.
          Inr [(''name'', JStr name),
               (''account_id'', account_id),
               (''org_id'', org_id),
               (''auth_token'', dict_get t ''accessToken'' (JStr '''')),
               (''owner_email'', email),
               (''owner_password'', JStr ''''),
               (''format'', JStr ''old''),
               (''raw'', JDict t)]))))))"

text \<open>The two records of the specification's examples.\<close>

definition legacy_record :: pydict where
  "legacy_record =
     [(''user'', JDict [(''email'', JStr ''a@b.com'')]),
      (''account'', JDict [(''id'', JStr ''1''), (''organizationId'', JStr ''o1'')]),
      (''accessToken'', JStr ''tok'')]"

definition current_record :: pydict where
  "current_record =
     [(''account'', JStr ''x@y.com''), (''token'', JStr ''t1''), (''authorized'', JBool True)]"

text \<open>
  The CPA polling settings: \<open>_cpa = _cfg.get("cpa", {})\<close>, then
  \<open>_cpa.get("poll_interval", 2)\<close> and \<open>_cpa.get("poll_max_retries", 30)\<close>. The argument is
  the dict \<open>tomllib.load\<close> returned, empty when there is no configuration file.
\<close>

definition cpa_section :: "pydict \<Rightarrow> json" where
  "cpa_section cfg = dict_get cfg ''cpa'' (JDict [])"

definition CPA_POLL_INTERVAL :: "pydict \<Rightarrow> pyerr + json" where
  "CPA_POLL_INTERVAL cfg = py_get (cpa_section cfg) ''poll_interval'' (JInt 2)"

definition CPA_POLL_MAX_RETRIES :: "pydict \<Rightarrow> pyerr + json" where
  "CPA_POLL_MAX_RETRIES cfg = py_get (cpa_section cfg) ''poll_max_retries'' (JInt 30)"

section \<open>Callback URLs (cpa_service.py, s2a_service.py)\<close>

definition is_cpa_callback_url :: "string \<Rightarrow> bool" where
  "is_cpa_callback_url url =
     (if url = [] then False
      else str_in ''localhost:1455/auth/callback'' url \<and> str_in ''code='' url)"

definition is_s2a_callback_url :: "string \<Rightarrow> bool" where
  "is_s2a_callback_url url =
     (if url = [] then False
      else str_in ''localhost:1455/auth/callback'' url \<and> str_in ''code='' url)"

text \<open>
  \<open>extract_code_from_url\<close> (in both modules) is how the system reads the \<open>code\<close> query
  parameter: \<open>parse_qs(urlparse(url).query).get("code", [None])[0]\<close>. The two library
  functions are modelled for byte strings: the query is the text between the first \<open>?\<close>
  and the first \<open>#\<close>; \<open>parse_qs\<close> splits it at \<open>&\<close>, splits every field at its first
  \<open>=\<close>, drops the fields without \<open>=\<close> or with an empty value, and decodes \<open>+\<close> and \<open>%XX\<close> in
  names and values.
\<close>

definition url_query :: "string \<Rightarrow> string" where
  "url_query url =
     drop 1 (dropWhile (\<lambda>c. c \<noteq> CHR ''?'') (takeWhile (\<lambda>c. c \<noteq> CHR ''#'') url))"

definition hex_value :: "char \<Rightarrow> nat option" where
  "hex_value c =
     (let n = (of_char c :: nat) in
      if 48 \<le> n \<and> n \<le> 57 then Some (n - 48)
      else if 65 \<le> n \<and> n \<le> 70 then Some (n - 55)
      else if 97 \<le> n \<and> n \<le> 102 then Some (n - 87)
      else None)"

fun unquote :: "string \<Rightarrow> string" where
  "unquote (c # h1 # h2 # rest) =
     (case (c = CHR ''%'', hex_value h1, hex_value h2) of
        (True, Some a, Some b) \<Rightarrow> char_of (16 * a + b) # unquote rest
      | _ \<Rightarrow> c # unquote (h1 # h2 # rest))"
| "unquote s = s"

definition unquote_plus :: "string \<Rightarrow> string" where
  "unquote_plus s = unquote (map (\<lambda>c. if c = CHR ''+'' then CHR '' '' else c) s)"

definition parse_field :: "string \<Rightarrow> (string \<times> string) option" where
  "parse_field name_value =
     (if CHR ''='' \<in> set name_value then
        (let name = takeWhile (\<lambda>c. c \<noteq> CHR ''='') name_value;
             val = drop 1 (dropWhile (\<lambda>c. c \<noteq> CHR ''='') name_value)
         in if val \<noteq> [] then Some (unquote_plus name, unquote_plus val) else None)
      else None)"

definition parse_qsl :: "string \<Rightarrow> (string \<times> string) list" where
  "parse_qsl qs = List.map_filter parse_field (split_char CHR ''&'' qs)"

text \<open>
  Before it splits a URL, \<open>urlparse\<close> strips the leading control characters and spaces
  and removes every tab, line feed and carriage return. It raises \<open>ValueError\<close> when the
  network location (the text after \<open>scheme://\<close>, up to the first \<open>/\<close>, \<open>?\<close> or \<open>#\<close>) holds
  one square bracket without the other; \<open>extract_code_from_url\<close> catches the exception
  and returns \<open>None\<close>. The other checks of the network location (the address between a
  pair of brackets, the normal form of a host that is not ASCII) are not modelled.
\<close>

definition url_clean :: "string \<Rightarrow> string" where
  "url_clean url =
     filter (\<lambda>c. (of_char c :: nat) \<notin> {9, 10, 13})
       (dropWhile (\<lambda>c. (of_char c :: nat) \<le> 32) url)"

definition is_scheme_char :: "char \<Rightarrow> bool" where
  "is_scheme_char c =
     (let n = (of_char c :: nat) in
      (65 \<le> n \<and> n \<le> 90) \<or> (97 \<le> n \<and> n \<le> 122) \<or> (48 \<le> n \<and> n \<le> 57) \<or>
      c = CHR ''+'' \<or> c = CHR ''-'' \<or> c = CHR ''.'')"

definition is_ascii_letter :: "char \<Rightarrow> bool" where
  "is_ascii_letter c =
     (let n = (of_char c :: nat) in (65 \<le> n \<and> n \<le> 90) \<or> (97 \<le> n \<and> n \<le> 122))"

definition after_scheme :: "string \<Rightarrow> string" where
  "after_scheme url =
     (let s = takeWhile (\<lambda>c. c \<noteq> CHR '':'') url in
      if CHR '':'' \<in> set url \<and> s \<noteq> [] \<and> is_ascii_letter (hd s) \<and> list_all is_scheme_char s
      then drop (length s + 1) url
      else url)"

definition url_netloc :: "string \<Rightarrow> string" where
  "url_netloc url =
     (let rest = after_scheme url in
      if take 2 rest = ''//''
      then takeWhile (\<lambda>c. c \<noteq> CHR ''/'' \<and> c \<noteq> CHR ''?'' \<and> c \<noteq> CHR ''#'') (drop 2 rest)
      else [])"

definition unbalanced_brackets :: "string \<Rightarrow> bool" where
  "unbalanced_brackets netloc = ((CHR ''['' \<in> set netloc) \<noteq> (CHR '']'' \<in> set netloc))"

definition extract_code_from_url :: "string \<Rightarrow> string option" where
  "extract_code_from_url url =
     (if url = [] then None
      else let cleaned = url_clean url in
           if unbalanced_brackets (url_netloc cleaned) then None
           else map_of (parse_qsl (url_query cleaned)) ''code'')"

section \<open>The network, the clock and the log\<close>

text \<open>
  The services talk to their backends through \<open>http_session.get\<close> and \<open>http_session.post\<close>,
  wait with \<open>time.sleep\<close> and report through \<open>log\<close>. The model threads a world through
  every call: the answers the network will give to the next calls, the requests sent so
  far, the sleeps taken and the lines logged. A call to the session takes the next answer.
  An answer is an exception raised by the session (timeout, connection error) or a
  response, with its status code and what \<open>response.json()\<close> returns (\<open>None\<close> when it
  raises); when the answers are used up the session raises. Headers and the request
  timeout are left out of a request. A log line is its level, its text (the source's
  texts are Chinese; they are given in English) and the values formatted into it.
\<close>

datatype http_request =
    GET string "(string \<times> string) list"
  | POST string json

datatype http_result =
    HttpError
  | HttpResponse int "json option"

datatype log_level = Step | Info | Success | Warning | Error | ProgressInline | ProgressClear

type_synonym message = "string \<times> json list"

record world =
  responses :: "http_result list"
  sent :: "http_request list"
  slept :: "int list"
  logged :: "(log_level \<times> message) list"

definition http_call :: "http_request \<Rightarrow> world \<Rightarrow> http_result \<times> world" where
  "http_call req w =
     (case responses w of
        [] \<Rightarrow> (HttpError, w\<lparr>sent := sent w @ [req]\<rparr>)
      | r # rs \<Rightarrow> (r, w\<lparr>responses := rs, sent := sent w @ [req]\<rparr>))"

definition log :: "log_level \<Rightarrow> message \<Rightarrow> world \<Rightarrow> world" where
  "log level msg w = w\<lparr>logged := logged w @ [(level, msg)]\<rparr>"

text \<open>\<open>time.sleep(secs)\<close> raises \<open>ValueError\<close> for a negative argument.\<close>

definition sleep :: "int \<Rightarrow> world \<Rightarrow> pyerr + world" where
  "sleep secs w =
     (if secs < 0 then Inl (ValueError ''sleep length must be non-negative'')
      else Inr (w\<lparr>slept := slept w @ [secs]\<rparr>))"

section \<open>The CPA service (cpa_service.py)\<close>

text \<open>
  \<open>cpa_check_auth_status(state)\<close>: every exception inside the \<open>try\<close> (the session's, the
  JSON decoder's, \<open>result.get\<close> on a body that is not a dict) gives \<open>(False, ...)\<close>.
\<close>

definition cpa_check_auth_status :: "string \<Rightarrow> string \<Rightarrow> world \<Rightarrow> (bool \<times> message) \<times> world" where
  "cpa_check_auth_status api_base state w =
     (case http_call (GET (api_base @ ''/v0/management/get-auth-status'') [(''state'', state)]) w of
        (HttpError, w') \<Rightarrow> ((False, (''status check raised'', [])), w')
      | (HttpResponse code body, w') \<Rightarrow>
          if code = 200 then
            (case body of
               None \<Rightarrow> ((False, (''status check raised'', [])), w')
             | Some result \<Rightarrow>
                 (case py_get result ''status'' (JStr '''') of
                    Inl e \<Rightarrow> ((False, (''status check raised'', [])), w')
                  | Inr status \<Rightarrow>
                      if status = JStr ''ok'' then ((True, (''authorized'', [])), w')
                      else ((False, (''status: {}'', [status])), w')))
          else ((False, (''status check failed: HTTP {}'', [JInt code])), w'))"

text \<open>
  \<open>cpa_poll_auth_status(state)\<close>, with the module's \<open>CPA_POLL_INTERVAL\<close> and
  \<open>CPA_POLL_MAX_RETRIES\<close> as parameters. \<open>poll_loop\<close> is the \<open>for attempt in
  range(CPA_POLL_MAX_RETRIES)\<close> loop with its remaining iterations counted down; it
  returns \<open>True\<close> where the source returns from inside the loop and \<open>False\<close> when the range
  is exhausted.
\<close>

fun poll_loop ::
  "string \<Rightarrow> int \<Rightarrow> int \<Rightarrow> string \<Rightarrow> nat \<Rightarrow> nat \<Rightarrow> world \<Rightarrow> (pyerr + bool) \<times> world" where
  "poll_loop api_base interval max_retries state attempt 0 w = (Inr False, w)"
| "poll_loop api_base interval max_retries state attempt (Suc remaining) w =
     (case cpa_check_auth_status api_base state w of
        ((is_success, msg), w1) \<Rightarrow>
          if is_success then
            (Inr True,
             log Success (''CPA authorization succeeded: {}'', [JStr (fst msg)])
               (log ProgressClear ('''', []) w1))
          else
            (let w2 = log ProgressInline
                        (''CPA polling {}/{}: {}'',
                         [JInt (int attempt + 1), JInt max_retries, JStr (fst msg)]) w1
             in case sleep interval w2 of
                  Inl e \<Rightarrow> (Inl e, w2)
                | Inr w3 \<Rightarrow>
                    poll_loop api_base interval max_retries state (Suc attempt) remaining w3))"

definition cpa_poll_auth_status ::
  "string \<Rightarrow> int \<Rightarrow> int \<Rightarrow> string \<Rightarrow> world \<Rightarrow> (pyerr + bool) \<times> world" where
  "cpa_poll_auth_status api_base interval max_retries state w =
     (let max_wait = interval * max_retries;
          w0 = log Step (''polling CPA authorization status (at most {}s)'', [JInt max_wait]) w
      in case poll_loop api_base interval max_retries state 0 (nat max_retries) w0 of
           (Inl e, w1) \<Rightarrow> (Inl e, w1)
         | (Inr True, w1) \<Rightarrow> (Inr True, w1)
         | (Inr False, w1) \<Rightarrow>
             (Inr False,
              log Error (''CPA authorization status polling timed out'', [])
                (log ProgressClear ('''', []) w1)))"

text \<open>An answer of the network on which \<open>cpa_check_auth_status\<close> reports success.\<close>

definition reports_ok :: "http_result \<Rightarrow> bool" where
  "reports_ok r =
     (case r of
        HttpResponse code (Some (JDict d)) \<Rightarrow> code = 200 \<and> dict_get d ''status'' (JStr '''') = JStr ''ok''
      | _ \<Rightarrow> False)"

definition status_request :: "string \<Rightarrow> string \<Rightarrow> http_request" where
  "status_request api_base state =
     GET (api_base @ ''/v0/management/get-auth-status'') [(''state'', state)]"

definition timeout_line :: "log_level \<times> message" where
  "timeout_line = (Error, (''CPA authorization status polling timed out'', []))"

definition pending_world :: world where
  "pending_world =
     \<lparr>responses = [HttpResponse 200 (Some (JDict [(''status'', JStr ''wait'')])),
                   HttpResponse 500 None,
                   HttpError,
                   HttpResponse 200 (Some (JDict [(''status'', JStr ''ok'')]))],
      sent = [], slept = [], logged = []\<rparr>"

section \<open>The CRS service (crs_service.py)\<close>

text \<open>
  \<open>crs_get_accounts()\<close>: the value of \<open>result.get("data", [])\<close> when the listing succeeds,
  the empty list otherwise; every exception inside the \<open>try\<close> is logged as a warning.
  \<open>api_base\<close> is the module's \<open>CRS_API_BASE\<close>.
\<close>

definition crs_get_accounts :: "string \<Rightarrow> world \<Rightarrow> json \<times> world" where
  "crs_get_accounts api_base w =
     (case http_call (GET (api_base @ ''/admin/openai-accounts'') []) w of
        (HttpError, w') \<Rightarrow> (JList [], log Warning (''listing CRS accounts raised'', []) w')
      | (HttpResponse code body, w') \<Rightarrow>
          if code = 200 then
            (case body of
               None \<Rightarrow> (JList [], log Warning (''listing CRS accounts raised'', []) w')
             | Some result \<Rightarrow>
                 (case py_get result ''success'' JNull of
                    Inl e \<Rightarrow> (JList [], log Warning (''listing CRS accounts raised'', []) w')
                  | Inr ok \<Rightarrow>
                      if truthy ok then
                        (case py_get result ''data'' (JList []) of
                           Inl e \<Rightarrow> (JList [], log Warning (''listing CRS accounts raised'', []) w')
                         | Inr data \<Rightarrow> (data, w'))
                      else (JList [], w')))
          else (JList [], w'))"

text \<open>
  The loop of \<open>crs_check_account_exists\<close>:
  \<open>if account.get("name", "").lower() == email.lower(): return True\<close>.
\<close>

fun crs_match_loop :: "(string \<Rightarrow> string) \<Rightarrow> json \<Rightarrow> json list \<Rightarrow> pyerr + bool" where
  "crs_match_loop str_lower email [] = Inr False"
| "crs_match_loop str_lower email (account # rest) =
     pybind (py_get account ''name'' (JStr '''')) (\<lambda>name.
     pybind (py_lower str_lower name) (\<lambda>account_name.
     pybind (py_lower str_lower email) (\<lambda>wanted.
     if account_name = wanted then Inr True else crs_match_loop str_lower email rest)))"

definition crs_check_account_exists ::
  "(string \<Rightarrow> string) \<Rightarrow> string \<Rightarrow> json \<Rightarrow> world \<Rightarrow> (pyerr + bool) \<times> world" where
  "crs_check_account_exists str_lower api_base email w =
     (case crs_get_accounts api_base w of
        (accounts, w') \<Rightarrow> (pybind (py_iter accounts) (crs_match_loop str_lower email), w'))"

text \<open>
  \<open>crs_add_team_owner(team_data)\<close> returns the created account or \<open>None\<close> (\<open>JNull\<close>). The
  payload is built before the \<open>try\<close>, so an exception there is raised to the caller; an
  exception inside the \<open>try\<close> gives \<open>None\<close>. When the answer reports success but has no
  \<open>data\<close> key, the success line is logged (with \<open>None\<close> as the ID) before \<open>result["data"]\<close>
  raises the \<open>KeyError\<close> that the \<open>except\<close> logs.
\<close>

definition team_owner_payload :: "pydict \<Rightarrow> json \<Rightarrow> json \<Rightarrow> pyerr + json" where
  "team_owner_payload team_data email access_token =
     pybind (py_get (dict_get team_data ''user'' (JDict [])) ''id'' (JStr '''')) (\<lambda>user_id.
     pybind (py_get (dict_get team_data ''account'' (JDict [])) ''planType'' (JStr ''team''))
       (\<lambda>plan_type.
     pybind (py_get (dict_get team_data ''account'' (JDict [])) ''organizationId'' (JStr ''''))
       (\<lambda>organization_id.
     Inr (JDict
       [(''name'', email),
        (''description'', JStr ''Team Owner (from team.json)''),
        (''accountType'', JStr ''shared''),
        (''proxy'', JNull),
        (''openaiOauth'', JDict [(''accessToken'', access_token), (''refreshToken'', JStr ''''),
                                 (''idToken'', JStr ''''), (''expires_in'', JInt 864000)]),
        (''accountInfo'', JDict [(''user_id'', user_id), (''email'', email),
                                 (''plan_type'', plan_type),
                                 (''organization_id'', organization_id)]),
        (''priority'', JInt 50)]))))"

definition post_team_owner :: "string \<Rightarrow> json \<Rightarrow> world \<Rightarrow> json \<times> world" where
  "post_team_owner api_base payload w =
     (case http_call (POST (api_base @ ''/admin/openai-accounts'') payload) w of
        (HttpError, w') \<Rightarrow> (JNull, log Error (''adding the team owner to CRS raised'', []) w')
      | (HttpResponse code body, w') \<Rightarrow>
          (let failed = (JNull, log Error (''adding the team owner to CRS failed: HTTP {}'',
                                           [JInt code]) w');
               raised = (JNull, log Error (''adding the team owner to CRS raised'', []) w')
           in if code = 200 then
                (case body of
                   None \<Rightarrow> raised
                 | Some result \<Rightarrow>
                     (case py_get result ''success'' JNull of
                        Inl e \<Rightarrow> raised
                      | Inr ok \<Rightarrow>
                          if truthy ok then
                            (case pybind (py_get result ''data'' (JDict []))
                                    (\<lambda>d. py_get d ''id'' JNull) of
                               Inl e \<Rightarrow> raised
                             | Inr account_id \<Rightarrow>
                                 (case result of
                                    JDict r \<Rightarrow>
                                      (case dict_item r ''data'' of
                                         Inl e \<Rightarrow>
                                           (JNull,
                                            log Error (''adding the team owner to CRS raised'', [])
                                              (log Success (''team owner added to CRS (ID: {})'',
                                                            [account_id]) w'))
                                       | Inr data \<Rightarrow>
                                           (data, log Success (''team owner added to CRS (ID: {})'',
                                                               [account_id]) w'))
                                  | _ \<Rightarrow> raised))
                          else failed))
              else failed))"

definition crs_add_team_owner ::
  "(string \<Rightarrow> string) \<Rightarrow> string \<Rightarrow> pydict \<Rightarrow> world \<Rightarrow> (pyerr + json) \<times> world" where
  "crs_add_team_owner str_lower api_base team_data w =
     (case py_get (dict_get team_data ''user'' (JDict [])) ''email'' (JStr '''') of
        Inl e \<Rightarrow> (Inl e, w)
      | Inr email \<Rightarrow>
          (let access_token = dict_get team_data ''accessToken'' (JStr '''') in
           if \<not> truthy email \<or> \<not> truthy access_token then
             (Inr JNull, log Warning (''team data incomplete, skipped: {}'', [email]) w)
           else
             (case crs_check_account_exists str_lower api_base email w of
                (Inl e, w1) \<Rightarrow> (Inl e, w1)
              | (Inr True, w1) \<Rightarrow>
                  (Inr JNull, log Info (''account already exists in CRS: {}'', [email]) w1)
              | (Inr False, w1) \<Rightarrow>
                  (case team_owner_payload team_data email access_token of
                     Inl e \<Rightarrow> (Inl e, w1)
                   | Inr payload \<Rightarrow>
                       (case post_team_owner api_base payload w1 of
                          (res, w2) \<Rightarrow> (Inr res, w2))))))"

text \<open>
  Module namespaces. \<open>crs_service.py\<close> binds, from \<open>config\<close>, exactly the names of its
  \<open>from config import (...)\<close> statement; its other global names are the modules and
  classes it imports (\<open>requests\<close>, \<open>HTTPAdapter\<close>, \<open>Retry\<close>, \<open>urlparse\<close>, \<open>parse_qs\<close>, \<open>log\<close>),
  \<open>http_session\<close> and its own functions. A function reads a global name from its module's
  namespace (and then from the builtins, which hold none of the names below) and raises
  \<open>NameError\<close> when the name is not bound. The argument \<open>config_ns\<close> is the namespace of
  the \<open>config\<close> module, in which \<open>TEAMS\<close>, \<open>INCLUDE_TEAM_OWNERS\<close> and \<open>CRS_API_BASE\<close> are
  bound.
\<close>

definition crs_service_imports :: "string list" where
  "crs_service_imports =
     [''CRS_API_BASE'', ''CRS_ADMIN_TOKEN'', ''REQUEST_TIMEOUT'', ''USER_AGENT'', ''TEAMS'',
      ''PROXY_ENABLED'', ''get_proxy_dict'']"

definition crs_service_globals :: "pydict \<Rightarrow> pydict" where
  "crs_service_globals config_ns = filter (\<lambda>p. fst p \<in> set crs_service_imports) config_ns"

definition load_global :: "pydict \<Rightarrow> string \<Rightarrow> pyerr + json" where
  "load_global g name = (case map_of g name of None \<Rightarrow> Inl (NameError name) | Some v \<Rightarrow> Inr v)"

text \<open>
  \<open>crs_sync_team_owners()\<close>, run in the namespace \<open>g\<close>. \<open>sync_loop\<close> is its \<open>for team in
  TEAMS\<close> loop with the running \<open>success_count\<close>.
\<close>

fun sync_loop ::
  "(string \<Rightarrow> string) \<Rightarrow> string \<Rightarrow> int \<Rightarrow> json list \<Rightarrow> world \<Rightarrow> (pyerr + int) \<times> world" where
  "sync_loop str_lower api_base success_count [] w = (Inr success_count, w)"
| "sync_loop str_lower api_base success_count (team # rest) w =
     (case py_get team ''raw'' (JDict []) of
        Inl e \<Rightarrow> (Inl e, w)
      | Inr raw_data \<Rightarrow>
          if truthy raw_data then
            (case raw_data of
               JDict team_data \<Rightarrow>
                 (case crs_add_team_owner str_lower api_base team_data w of
                    (Inl e, w') \<Rightarrow> (Inl e, w')
                  | (Inr result, w') \<Rightarrow>
                      sync_loop str_lower api_base
                        (if truthy result then success_count + 1 else success_count) rest w')
             | _ \<Rightarrow> (Inl (AttributeError ''get''), w))
          else sync_loop str_lower api_base success_count rest w)"

definition crs_sync_team_owners ::
  "(string \<Rightarrow> string) \<Rightarrow> pydict \<Rightarrow> world \<Rightarrow> (pyerr + int) \<times> world" where
  "crs_sync_team_owners str_lower g w =
     (case load_global g ''INCLUDE_TEAM_OWNERS'' of
        Inl e \<Rightarrow> (Inl e, w)
      | Inr include_team_owners \<Rightarrow>
          if \<not> truthy include_team_owners then (Inr 0, w)
          else
            (case load_global g ''TEAMS'' of
               Inl e \<Rightarrow> (Inl e, w)
             | Inr teams_value \<Rightarrow>
                 if \<not> truthy teams_value then
                   (Inr 0, log Warning (''team.json is empty, no team owner to sync'', []) w)
                 else
                   (case (py_iter teams_value, load_global g ''CRS_API_BASE'') of
                      (Inr team_list, Inr (JStr api_base)) \<Rightarrow>
                        (case sync_loop str_lower api_base 0 team_list
                                (log Info (''syncing {} team owners to CRS'',
                                           [JInt (int (length team_list))]) w) of
                           (Inl e, w') \<Rightarrow> (Inl e, w')
                         | (Inr success_count, w') \<Rightarrow>
                             (Inr success_count,
                              log Info (''team owner sync finished: {}/{}'',
                                        [JInt success_count, JInt (int (length team_list))]) w'))
                    | (Inl e, _) \<Rightarrow> (Inl e, w)
                    | (_, Inl e) \<Rightarrow> (Inl e, w)
                    | _ \<Rightarrow> (Inl (TypeError ''CRS_API_BASE''), w))))"

text \<open>A \<open>config\<close> namespace in which team-owner inclusion is disabled and no team is loaded.\<close>

definition example_config_ns :: pydict where
  "example_config_ns =
     [(''TEAMS'', JList []), (''INCLUDE_TEAM_OWNERS'', JBool False),
      (''CRS_API_BASE'', JStr ''http://crs''), (''CRS_ADMIN_TOKEN'', JStr ''token'')]"

definition idle_world :: world where
  "idle_world = \<lparr>responses = [], sent = [], slept = [], logged = []\<rparr>"

section \<open>The S2A service (s2a_service.py)\<close>

text \<open>
  \<open>s2a_get_accounts(platform)\<close>. \<open>result.get("code") == 0\<close> holds for the integer 0 and for
  \<open>False\<close>. Every exception inside the \<open>try\<close> is logged and gives the empty list.
\<close>

definition s2a_get_accounts :: "string \<Rightarrow> string \<Rightarrow> world \<Rightarrow> json \<times> world" where
  "s2a_get_accounts api_base platform w =
     (case http_call (GET (api_base @ ''/admin/accounts'')
                       (if platform \<noteq> [] then [(''platform'', platform)] else [])) w of
        (HttpError, w') \<Rightarrow> (JList [], log Warning (''listing S2A accounts raised'', []) w')
      | (HttpResponse code body, w') \<Rightarrow>
          if code = 200 then
            (case body of
               None \<Rightarrow> (JList [], log Warning (''listing S2A accounts raised'', []) w')
             | Some result \<Rightarrow>
                 (case py_get result ''code'' JNull of
                    Inl e \<Rightarrow> (JList [], log Warning (''listing S2A accounts raised'', []) w')
                  | Inr c \<Rightarrow>
                      if c = JInt 0 \<or> c = JBool False then
                        (case py_get result ''data'' (JDict []) of
                           Inl e \<Rightarrow> (JList [], log Warning (''listing S2A accounts raised'', []) w')
                         | Inr (JDict d) \<Rightarrow>
                             if map_of d ''items'' \<noteq> None then (dict_get d ''items'' (JList []), w')
                             else (JList [], w')
                         | Inr (JList l) \<Rightarrow> (JList l, w')
                         | Inr _ \<Rightarrow> (JList [], w'))
                      else (JList [], w')))
          else (JList [], w'))"

text \<open>
  The loop of \<open>s2a_check_account_exists\<close>: the name, the credentials and the credential
  email are read, and lowered, before the comparison.
\<close>

fun s2a_match_loop :: "(string \<Rightarrow> string) \<Rightarrow> json \<Rightarrow> json list \<Rightarrow> pyerr + bool" where
  "s2a_match_loop str_lower email [] = Inr False"
| "s2a_match_loop str_lower email (account # rest) =
     pybind (py_get account ''name'' (JStr '''')) (\<lambda>name.
     pybind (py_lower str_lower name) (\<lambda>account_name.
     pybind (py_get account ''credentials'' (JDict [])) (\<lambda>credentials.
     pybind (py_get credentials ''email'' (JStr '''')) (\<lambda>cred_email.
     pybind (py_lower str_lower cred_email) (\<lambda>account_email.
     pybind (py_lower str_lower email) (\<lambda>wanted.
     if account_name = wanted \<or> account_email = wanted then Inr True
     else s2a_match_loop str_lower email rest))))))"

definition s2a_check_account_exists ::
  "(string \<Rightarrow> string) \<Rightarrow> string \<Rightarrow> json \<Rightarrow> string \<Rightarrow> world \<Rightarrow> (pyerr + bool) \<times> world" where
  "s2a_check_account_exists str_lower api_base email platform w =
     (case s2a_get_accounts api_base platform w of
        (accounts, w') \<Rightarrow> (pybind (py_iter accounts) (s2a_match_loop str_lower email), w'))"

text \<open>
  Accounts as the backends list them. A named account is a dict whose \<open>name\<close>, when
  present, is a string: the CRS check reads nothing else. A listed account is a named
  account whose \<open>credentials\<close>, when present, is a dict whose \<open>email\<close>, when present, is
  a string: the S2A check reads all of these, and raises \<open>AttributeError\<close> on an account
  that is not of this shape (a \<open>null\<close> name, \<open>null\<close> credentials). A missing name or
  credential email reads as the empty string.
\<close>

definition str_or_absent :: "json option \<Rightarrow> bool" where
  "str_or_absent v = (case v of None \<Rightarrow> True | Some (JStr s) \<Rightarrow> True | _ \<Rightarrow> False)"

definition str_or_empty :: "json option \<Rightarrow> string" where
  "str_or_empty v = (case v of Some (JStr s) \<Rightarrow> s | _ \<Rightarrow> [])"

definition account_name :: "json \<Rightarrow> string" where
  "account_name account =
     (case account of JDict d \<Rightarrow> str_or_empty (map_of d ''name'') | _ \<Rightarrow> [])"

definition credential_email :: "json \<Rightarrow> string" where
  "credential_email account =
     (case account of
        JDict d \<Rightarrow>
          (case map_of d ''credentials'' of
             Some (JDict c) \<Rightarrow> str_or_empty (map_of c ''email'')
           | _ \<Rightarrow> [])
      | _ \<Rightarrow> [])"

definition named_account :: "json \<Rightarrow> bool" where
  "named_account account =
     (case account of JDict d \<Rightarrow> str_or_absent (map_of d ''name'') | _ \<Rightarrow> False)"

definition listed_account :: "json \<Rightarrow> bool" where
  "listed_account account =
     (case account of
        JDict d \<Rightarrow>
          str_or_absent (map_of d ''name'') \<and>
          (case map_of d ''credentials'' of
             None \<Rightarrow> True
           | Some (JDict c) \<Rightarrow> str_or_absent (map_of c ''email'')
           | _ \<Rightarrow> False)
      | _ \<Rightarrow> False)"

text \<open>The answers of a CRS and of an S2A backend that list the given accounts.\<close>

definition crs_listing :: "json list \<Rightarrow> http_result" where
  "crs_listing accounts =
     HttpResponse 200 (Some (JDict [(''success'', JBool True), (''data'', JList accounts)]))"

definition s2a_listing :: "json list \<Rightarrow> http_result" where
  "s2a_listing accounts =
     HttpResponse 200 (Some (JDict [(''code'', JInt 0), (''data'', JDict [(''items'', JList accounts)])]))"

text \<open>
  Example listings: one with an account named \<open>foo@bar.com\<close>, and an account that carries
  that email only in its credentials.
\<close>

definition foo_accounts :: "json list" where
  "foo_accounts = [JDict [(''name'', JStr ''other@x.com'')], JDict [(''name'', JStr ''foo@bar.com'')]]"

definition credential_only_account :: json where
  "credential_only_account =
     JDict [(''name'', JStr ''pool-1''),
            (''credentials'', JDict [(''email'', JStr ''foo@bar.com'')]),
            (''accountInfo'', JDict [(''email'', JStr ''foo@bar.com'')])]"

section \<open>Loading the tracker (utils.py)\<close>











section \<open>The account tracker: proofs\<close>

lemma update_first_upsert_list:
  "list_all (\<lambda>a. email_of a \<noteq> None) accounts \<Longrightarrow>
   (case update_first f email accounts of
      Inl e \<Rightarrow> False
    | Inr None \<Rightarrow> upsert_list f new email accounts = accounts @ [new]
    | Inr (Some accounts') \<Rightarrow> upsert_list f new email accounts = accounts')"
  by (induction accounts) (auto simp: email_of_def dict_item_def split: sum.splits option.splits)

lemma ensure_team_update [simp]:
  "AList.update team_name v (ensure_team ts team_name) = AList.update team_name v ts"
  by (simp add: ensure_team_def)

lemma map_of_ensure_team:
  "map_of (ensure_team ts team_name) team_name =
     Some (case map_of ts team_name of None \<Rightarrow> [] | Some l \<Rightarrow> l)"
  by (auto simp: ensure_team_def update_conv')

lemma list_all_map_of:
  "list_all P al \<Longrightarrow> map_of al k = Some v \<Longrightarrow> P (k, v)"
  by (induction al) (auto split: if_splits)

lemma list_all_update:
  "list_all P al \<Longrightarrow> P (k, v) \<Longrightarrow> list_all P (AList.update k v al)"
  by (induction al) auto

lemma team_accounts_wf: "tracker_wf tr \<Longrightarrow> accounts_wf (team_accounts tr team_name)"
  unfolding tracker_wf_def team_accounts_def
  by (auto simp: accounts_wf_def split: option.splits dest: list_all_map_of)

lemma upsert_with_eq:
  assumes "list_all (\<lambda>a. email_of a \<noteq> None) (team_accounts tr team_name)"
  shows "upsert_with f new tr team_name email =
           Inr (tr\<lparr>teams := AList.update team_name
                    (upsert_list f new email (team_accounts tr team_name)) (teams tr)\<rparr>)"
proof -
  from update_first_upsert_list[OF assms, where f=f and email=email and new=new] show ?thesis
    by (auto simp: upsert_with_def Let_def map_of_ensure_team team_accounts_def
        split: sum.splits option.splits)
qed

lemma upsert_list_emails:
  assumes "\<And>a. email_of (f a) = email_of a" "email_of new = Some (JStr email)"
  shows "map email_of (upsert_list f new email accounts) =
           (if Some (JStr email) \<in> set (map email_of accounts) then map email_of accounts
            else map email_of accounts @ [Some (JStr email)])"
  using assms by (induction accounts) auto

lemma upsert_list_wf:
  assumes "\<And>a. email_of (f a) = email_of a" "email_of new = Some (JStr email)"
    and "accounts_wf accounts"
  shows "accounts_wf (upsert_list f new email accounts)"
proof -
  have "list_all (\<lambda>a. email_of a \<noteq> None) (upsert_list f new email accounts)"
    using assms by (induction accounts) (auto simp: accounts_wf_def)
  moreover have "distinct (map email_of (upsert_list f new email accounts))"
    using assms(3) by (simp add: upsert_list_emails[OF assms(1,2)] accounts_wf_def)
  ultimately show ?thesis by (simp add: accounts_wf_def)
qed

lemma upsert_list_has_email:
  assumes "\<And>a. email_of (f a) = email_of a" "email_of new = Some (JStr email)"
  shows "list_all (\<lambda>a. email_of a \<noteq> None) accounts \<Longrightarrow>
         list_all (\<lambda>a. email_of a \<noteq> None) (upsert_list f new email accounts)"
  using assms by (induction accounts) auto

lemma upsert_list_one:
  assumes "\<And>a. email_of (f a) = email_of a" "email_of new = Some (JStr email)"
    and "\<And>a. P (f a)" "P new"
  shows "length (filter (\<lambda>a. email_of a = Some (JStr email)) accounts) \<le> 1 \<Longrightarrow>
     \<exists>x. filter (\<lambda>a. email_of a = Some (JStr email)) (upsert_list f new email accounts) = [x] \<and> P x"
proof (induction accounts)
  case Nil
  then show ?case using assms by simp
next
  case (Cons a as)
  show ?case
  proof (cases "email_of a = Some (JStr email)")
    case True
    with Cons.prems have "filter (\<lambda>a. email_of a = Some (JStr email)) as = []" by simp
    with True show ?thesis using assms by simp
  next
    case False
    with Cons show ?thesis by simp
  qed
qed

lemma distinct_filter_le1:
  "distinct (map g xs) \<Longrightarrow> length (filter (\<lambda>x. g x = v) xs) \<le> 1"
proof (induction xs)
  case Nil
  then show ?case by simp
next
  case (Cons x xs)
  show ?case
  proof (cases "g x = v")
    case True
    from Cons.prems have "g x \<notin> g ` set xs" by simp
    with True have "\<forall>y \<in> set xs. g y \<noteq> v" by (metis imageI)
    then have "filter (\<lambda>x. g x = v) xs = []" by (simp add: filter_empty_conv)
    with True show ?thesis by simp
  next
    case False
    with Cons show ?thesis by simp
  qed
qed

lemma email_of_update [simp]:
  "k \<noteq> ''email'' \<Longrightarrow> email_of (AList.update k v a) = email_of a"
  by (simp add: email_of_def update_conv')

lemma call_upsert_eq:
  assumes "list_all (\<lambda>a. email_of a \<noteq> None) (team_accounts tr T)" "upsert_key c = (T, E)"
  shows "\<exists>f new. (\<forall>a. email_of (f a) = email_of a) \<and> email_of new = Some (JStr E) \<and>
           (\<forall>a. map_of (f a) ''status'' = Some (JStr (upsert_status c))) \<and>
           map_of new ''status'' = Some (JStr (upsert_status c)) \<and>
           call_upsert tr c =
             Inr (tr\<lparr>teams := AList.update T (upsert_list f new E (team_accounts tr T)) (teams tr)\<rparr>)"
proof (cases c)
  case (AddAccount team_name email status now1 now2)
  let ?f = "\<lambda>account. AList.update ''updated_at'' (JStr now1)
                    (AList.update ''status'' (JStr status) account)"
  let ?new = "[(''email'', JStr email), (''status'', JStr status),
        (''created_at'', JStr now1), (''updated_at'', JStr now2)]"
  have e: "call_upsert tr c =
      Inr (tr\<lparr>teams := AList.update T (upsert_list ?f ?new E (team_accounts tr T)) (teams tr)\<rparr>)"
    using assms AddAccount by (simp add: add_account_to_tracker_def upsert_with_eq)
  have a: "\<forall>a. email_of (?f a) = email_of a" by simp
  have b: "email_of ?new = Some (JStr E)" using assms AddAccount by (simp add: email_of_def)
  have c: "\<forall>a. map_of (?f a) ''status'' = Some (JStr (upsert_status c))"
    using AddAccount by (simp add: update_conv')
  have d: "map_of ?new ''status'' = Some (JStr (upsert_status c))"
    using AddAccount by simp
  show ?thesis
    by (rule exI[of _ ?f], rule exI[of _ ?new]) (intro conjI a b c d e)
next
  case (AddAccountWithPassword team_name email password status now1 now2)
  let ?f = "\<lambda>account. AList.update ''updated_at'' (JStr now1)
                    (AList.update ''password'' (JStr password)
                      (AList.update ''status'' (JStr status) account))"
  let ?new = "[(''email'', JStr email), (''password'', JStr password), (''status'', JStr status),
        (''role'', JStr ''member''), (''created_at'', JStr now1), (''updated_at'', JStr now2)]"
  have e: "call_upsert tr c =
      Inr (tr\<lparr>teams := AList.update T (upsert_list ?f ?new E (team_accounts tr T)) (teams tr)\<rparr>)"
    using assms AddAccountWithPassword by (simp add: add_account_with_password_def upsert_with_eq)
  have a: "\<forall>a. email_of (?f a) = email_of a" by simp
  have b: "email_of ?new = Some (JStr E)"
    using assms AddAccountWithPassword by (simp add: email_of_def)
  have c: "\<forall>a. map_of (?f a) ''status'' = Some (JStr (upsert_status c))"
    using AddAccountWithPassword by (simp add: update_conv')
  have d: "map_of ?new ''status'' = Some (JStr (upsert_status c))"
    using AddAccountWithPassword by simp
  show ?thesis
    by (rule exI[of _ ?f], rule exI[of _ ?new]) (intro conjI a b c d e)
qed

lemma team_accounts_update [simp]:
  "team_accounts (tr\<lparr>teams := AList.update T l (teams tr)\<rparr>) T = l"
  by (simp add: team_accounts_def update_conv')

lemma call_upsert_wf:
  assumes "tracker_wf tr"
  shows "\<exists>tr'. call_upsert tr c = Inr tr' \<and> tracker_wf tr'"
proof -
  obtain T E where key: "upsert_key c = (T, E)" by (cases "upsert_key c")
  have wfT: "accounts_wf (team_accounts tr T)" by (rule team_accounts_wf[OF assms])
  then have em: "list_all (\<lambda>a. email_of a \<noteq> None) (team_accounts tr T)"
    by (simp add: accounts_wf_def)
  from call_upsert_eq[OF em key] obtain f new where
    f: "\<And>a. email_of (f a) = email_of a" and new: "email_of new = Some (JStr E)"
    and eq: "call_upsert tr c =
      Inr (tr\<lparr>teams := AList.update T (upsert_list f new E (team_accounts tr T)) (teams tr)\<rparr>)"
    by blast
  have "accounts_wf (upsert_list f new E (team_accounts tr T))"
    by (rule upsert_list_wf[OF f new wfT])
  then have "tracker_wf (tr\<lparr>teams := AList.update T (upsert_list f new E (team_accounts tr T))
      (teams tr)\<rparr>)"
    using assms by (simp add: tracker_wf_def list_all_update)
  with eq show ?thesis by simp
qed

lemma call_upsert_step:
  assumes em: "list_all (\<lambda>a. email_of a \<noteq> None) (team_accounts tr T)"
    and one: "length (filter (\<lambda>a. email_of a = Some (JStr E)) (team_accounts tr T)) \<le> 1"
    and key: "upsert_key c = (T, E)"
  shows "\<exists>tr' a. call_upsert tr c = Inr tr' \<and>
           list_all (\<lambda>a. email_of a \<noteq> None) (team_accounts tr' T) \<and>
           filter (\<lambda>a. email_of a = Some (JStr E)) (team_accounts tr' T) = [a] \<and>
           map_of a ''status'' = Some (JStr (upsert_status c))"
proof -
  from call_upsert_eq[OF em key] obtain f new where
    f: "\<And>a. email_of (f a) = email_of a" and new: "email_of new = Some (JStr E)"
    and fs: "\<And>a. map_of (f a) ''status'' = Some (JStr (upsert_status c))"
    and ns: "map_of new ''status'' = Some (JStr (upsert_status c))"
    and eq: "call_upsert tr c =
      Inr (tr\<lparr>teams := AList.update T (upsert_list f new E (team_accounts tr T)) (teams tr)\<rparr>)"
    by blast
  let ?tr' = "tr\<lparr>teams := AList.update T (upsert_list f new E (team_accounts tr T)) (teams tr)\<rparr>"
  have ta: "team_accounts ?tr' T = upsert_list f new E (team_accounts tr T)" by simp
  have 1: "list_all (\<lambda>a. email_of a \<noteq> None) (team_accounts ?tr' T)"
    unfolding ta by (rule upsert_list_has_email[OF f new em])
  from upsert_list_one[where P="\<lambda>a. map_of a ''status'' = Some (JStr (upsert_status c))",
      OF f new fs ns one]
  obtain x where x: "filter (\<lambda>a. email_of a = Some (JStr E)) (team_accounts ?tr' T) = [x]"
    "map_of x ''status'' = Some (JStr (upsert_status c))" unfolding ta by blast
  from eq 1 x show ?thesis by (intro exI[of _ ?tr'] exI[of _ x] conjI)
qed

lemma call_upserts_wf:
  "tracker_wf tr \<Longrightarrow> \<exists>tr'. call_upserts tr calls = Inr tr' \<and> tracker_wf tr'"
proof (induction calls arbitrary: tr)
  case Nil
  then show ?case by simp
next
  case (Cons c cs)
  from call_upsert_wf[OF Cons.prems, of c] obtain tr1 where
    "call_upsert tr c = Inr tr1" "tracker_wf tr1" by blast
  with Cons.IH[of tr1] show ?case by simp
qed

text \<open>
  Claim C1. Let every account of team T carry an email, and let T's list hold at most one
  account with email E. Then an upsert for (T, E, s1) followed by an upsert for
  (T, E, s2), each by \<open>add_account_to_tracker\<close> or \<open>add_account_with_password\<close>, returns
  normally and leaves exactly one account with email E in T's list, whose status is s2.
  And from a state that satisfies the data model's invariant (every account carries an
  email, at most one account per team and email), every sequence of upsert calls returns
  normally and ends in a state that satisfies the invariant.
\<close>

theorem upsert_idempotent_unique:
  assumes "list_all (\<lambda>a. email_of a \<noteq> None) (team_accounts tr T)"
    and "length (filter (\<lambda>a. email_of a = Some (JStr E)) (team_accounts tr T)) \<le> 1"
    and "upsert_key c1 = (T, E)" and "upsert_key c2 = (T, E)"
  shows "(\<exists>tr1 tr2 a. call_upsert tr c1 = Inr tr1 \<and> call_upsert tr1 c2 = Inr tr2 \<and>
            filter (\<lambda>a. email_of a = Some (JStr E)) (team_accounts tr2 T) = [a] \<and>
            map_of a ''status'' = Some (JStr (upsert_status c2))) \<and>
         (tracker_wf tr \<longrightarrow> (\<forall>calls. \<exists>tr'. call_upserts tr calls = Inr tr' \<and> tracker_wf tr'))"
proof
  from call_upsert_step[OF assms(1,2,3)] obtain tr1 a1 where
    1: "call_upsert tr c1 = Inr tr1"
       "list_all (\<lambda>a. email_of a \<noteq> None) (team_accounts tr1 T)"
       "filter (\<lambda>a. email_of a = Some (JStr E)) (team_accounts tr1 T) = [a1]" by blast
  from 1(3) have le: "length (filter (\<lambda>a. email_of a = Some (JStr E)) (team_accounts tr1 T)) \<le> 1"
    by simp
  from call_upsert_step[OF 1(2) le assms(4)] obtain tr2 a where
    2: "call_upsert tr1 c2 = Inr tr2"
       "filter (\<lambda>a. email_of a = Some (JStr E)) (team_accounts tr2 T) = [a]"
       "map_of a ''status'' = Some (JStr (upsert_status c2))" by blast
  from 1(1) 2 show "\<exists>tr1 tr2 a. call_upsert tr c1 = Inr tr1 \<and> call_upsert tr1 c2 = Inr tr2 \<and>
            filter (\<lambda>a. email_of a = Some (JStr E)) (team_accounts tr2 T) = [a] \<and>
            map_of a ''status'' = Some (JStr (upsert_status c2))"
    by (intro exI[of _ tr1] exI[of _ tr2] exI[of _ a] conjI)
  show "tracker_wf tr \<longrightarrow> (\<forall>calls. \<exists>tr'. call_upserts tr calls = Inr tr' \<and> tracker_wf tr')"
    using call_upserts_wf by blast
qed

theorem upsert_idempotent_unique_witness:
  "list_all (\<lambda>a. email_of a \<noteq> None) (team_accounts example_tracker ''alpha'') \<and>
   length (filter (\<lambda>a. email_of a = Some (JStr ''u2@x.com'')) (team_accounts example_tracker ''alpha'')) \<le> 1 \<and>
   tracker_wf example_tracker \<and>
   (\<exists>tr1 tr2 a.
      call_upsert example_tracker (AddAccount ''alpha'' ''u2@x.com'' ''registered'' ''t1'' ''t2'') = Inr tr1 \<and>
      call_upsert tr1 (AddAccountWithPassword ''alpha'' ''u2@x.com'' ''pw'' ''authorized'' ''t3'' ''t4'') = Inr tr2 \<and>
      filter (\<lambda>a. email_of a = Some (JStr ''u2@x.com'')) (team_accounts tr2 ''alpha'') = [a] \<and>
      map_of a ''status'' = Some (JStr ''authorized'')) \<and>
   (\<exists>tr'. call_upserts example_tracker
            [AddAccount ''beta'' ''u3@x.com'' ''invited'' ''t1'' ''t2'',
             AddAccount ''beta'' ''u3@x.com'' ''completed'' ''t3'' ''t4''] = Inr tr' \<and>
          tracker_wf tr')"
proof -
  have h1: "list_all (\<lambda>a. email_of a \<noteq> None) (team_accounts example_tracker ''alpha'')"
    by (simp add: team_accounts_def example_tracker_def example_accounts_def email_of_def)
  have h2: "length (filter (\<lambda>a. email_of a = Some (JStr ''u2@x.com''))
      (team_accounts example_tracker ''alpha'')) \<le> 1"
    by (simp add: team_accounts_def example_tracker_def example_accounts_def email_of_def)
  have wf: "tracker_wf example_tracker"
    by (simp add: tracker_wf_def accounts_wf_def example_tracker_def example_accounts_def
        email_of_def)
  have k1: "upsert_key (AddAccount ''alpha'' ''u2@x.com'' ''registered'' ''t1'' ''t2'') =
      (''alpha'', ''u2@x.com'')" by simp
  have k2: "upsert_key (AddAccountWithPassword ''alpha'' ''u2@x.com'' ''pw'' ''authorized'' ''t3'' ''t4'') =
      (''alpha'', ''u2@x.com'')" by simp
  note u = upsert_idempotent_unique[OF h1 h2 k1 k2]
  have p1: "\<exists>tr1 tr2 a.
      call_upsert example_tracker (AddAccount ''alpha'' ''u2@x.com'' ''registered'' ''t1'' ''t2'') = Inr tr1 \<and>
      call_upsert tr1 (AddAccountWithPassword ''alpha'' ''u2@x.com'' ''pw'' ''authorized'' ''t3'' ''t4'') = Inr tr2 \<and>
      filter (\<lambda>a. email_of a = Some (JStr ''u2@x.com'')) (team_accounts tr2 ''alpha'') = [a] \<and>
      map_of a ''status'' = Some (JStr ''authorized'')"
    using u[THEN conjunct1] by simp
  have "\<forall>calls. \<exists>tr'. call_upserts example_tracker calls = Inr tr' \<and> tracker_wf tr'"
    using u[THEN conjunct2] wf by (rule mp)
  then have p2: "\<exists>tr'. call_upserts example_tracker
            [AddAccount ''beta'' ''u3@x.com'' ''invited'' ''t1'' ''t2'',
             AddAccount ''beta'' ''u3@x.com'' ''completed'' ''t3'' ''t4''] = Inr tr' \<and>
          tracker_wf tr'" by (rule spec)
  from h1 h2 wf p1 p2 show ?thesis by (intro conjI)
qed

lemma incomplete_loop_ok:
  "\<forall>a \<in> set accounts. is_incomplete a \<longrightarrow> email_of a \<noteq> None \<Longrightarrow>
   incomplete_loop acc accounts = Inr (acc @ map incomplete_view (filter is_incomplete accounts))"
proof (induction accounts arbitrary: acc)
  case Nil
  then show ?case by simp
next
  case (Cons a as)
  show ?case
  proof (cases "is_incomplete a")
    case True
    with Cons.prems obtain em where em: "map_of a ''email'' = Some em" by (auto simp: email_of_def)
    have "incomplete_loop acc (a # as) = incomplete_loop (acc @ [incomplete_view a]) as"
      using True em by (simp add: is_incomplete_def incomplete_view_def dict_item_def dict_get_def Let_def)
    also have "\<dots> = Inr ((acc @ [incomplete_view a]) @ map incomplete_view (filter is_incomplete as))"
      using Cons.prems by (intro Cons.IH) simp
    finally show ?thesis using True by simp
  next
    case False
    then have "incomplete_loop acc (a # as) = incomplete_loop acc as"
      by (simp add: is_incomplete_def Let_def)
    then show ?thesis using False Cons by simp
  qed
qed

lemma incomplete_loop_no_completed:
  "incomplete_loop acc accounts = Inr res \<Longrightarrow>
   \<forall>r \<in> set acc. map_of r ''status'' \<noteq> Some (JStr ''completed'') \<Longrightarrow>
   \<forall>r \<in> set res. map_of r ''status'' \<noteq> Some (JStr ''completed'')"
proof (induction accounts arbitrary: acc)
  case Nil
  then show ?case by simp
next
  case (Cons a as)
  show ?case
  proof (cases "is_incomplete a")
    case True
    from Cons.prems(1) True obtain em where
      step: "incomplete_loop (acc @ [[(''email'', em), (''status'', dict_get a ''status'' (JStr '''')),
                   (''password'', dict_get a ''password'' (JStr '''')),
                   (''role'', dict_get a ''role'' (JStr ''member''))]]) as = Inr res"
      by (auto simp: is_incomplete_def Let_def split: sum.splits)
    show ?thesis
      by (rule Cons.IH[OF step]) (use Cons.prems(2) True in \<open>auto simp: is_incomplete_def\<close>)
  next
    case False
    then have "incomplete_loop acc (a # as) = incomplete_loop acc as"
      by (simp add: is_incomplete_def Let_def)
    then show ?thesis using Cons by simp
  qed
qed

text \<open>
  Claim C2. Whatever \<open>get_incomplete_accounts\<close> returns contains no entry whose status is
  \<open>"completed"\<close>. When every account of the team that is not completed carries an email
  (the source reads \<open>account["email"]\<close>), the call returns, in order, one entry with
  email, status, password and role for every account of the team whose status is not
  \<open>"completed"\<close>, and nothing else.
\<close>

theorem get_incomplete_accounts_spec:
  "(\<forall>res. get_incomplete_accounts tr T = Inr res \<longrightarrow>
      (\<forall>r \<in> set res. map_of r ''status'' \<noteq> Some (JStr ''completed''))) \<and>
   ((\<forall>a \<in> set (team_accounts tr T). is_incomplete a \<longrightarrow> map_of a ''email'' \<noteq> None) \<longrightarrow>
      get_incomplete_accounts tr T =
        Inr (map incomplete_view (filter is_incomplete (team_accounts tr T))))"
proof (intro conjI allI impI)
  fix res assume "get_incomplete_accounts tr T = Inr res"
  then show "\<forall>r \<in> set res. map_of r ''status'' \<noteq> Some (JStr ''completed'')"
    using incomplete_loop_no_completed[of "[]" _ res]
    by (auto simp: get_incomplete_accounts_def split: option.splits)
next
  assume "\<forall>a \<in> set (team_accounts tr T). is_incomplete a \<longrightarrow> map_of a ''email'' \<noteq> None"
  then show "get_incomplete_accounts tr T =
        Inr (map incomplete_view (filter is_incomplete (team_accounts tr T)))"
    using incomplete_loop_ok[of "team_accounts tr T" "[]"]
    by (auto simp: get_incomplete_accounts_def team_accounts_def email_of_def split: option.splits)
qed

theorem get_incomplete_accounts_spec_witness:
  "list_all (\<lambda>a. map_of a ''email'' \<noteq> None) (team_accounts example_tracker ''alpha'') \<and>
   get_incomplete_accounts example_tracker ''alpha'' =
     Inr [[(''email'', JStr ''u2@x.com''), (''status'', JStr ''invited''),
           (''password'', JStr ''''), (''role'', JStr ''member'')]]"
proof -
  have l: "list_all (\<lambda>a. map_of a ''email'' \<noteq> None) (team_accounts example_tracker ''alpha'')"
    by (simp add: team_accounts_def example_tracker_def example_accounts_def)
  then have h: "\<forall>a \<in> set (team_accounts example_tracker ''alpha'').
      is_incomplete a \<longrightarrow> map_of a ''email'' \<noteq> None"
    by (simp add: list_all_iff)
  have "get_incomplete_accounts example_tracker ''alpha'' =
        Inr (map incomplete_view (filter is_incomplete (team_accounts example_tracker ''alpha'')))"
    using get_incomplete_accounts_spec[of example_tracker "''alpha''"] h by (elim conjE impE)
  then show ?thesis using l
    by (simp add: team_accounts_def example_tracker_def example_accounts_def is_incomplete_def
        incomplete_view_def dict_get_def)
qed

lemma map_of_update_other:
  "k \<noteq> k' \<Longrightarrow> map_of (AList.update k' v a) k = map_of a k"
  by (simp add: update_conv')

lemma upsert_list_first:
  "Some (JStr email) \<in> set (map email_of accounts) \<Longrightarrow>
   \<exists>i<length accounts. email_of (accounts ! i) = Some (JStr email) \<and>
     (\<forall>f new. upsert_list f new email accounts = accounts[i := f (accounts ! i)])"
proof (induction accounts)
  case Nil
  then show ?case by simp
next
  case (Cons a as)
  show ?case
  proof (cases "email_of a = Some (JStr email)")
    case True
    then have "0 < length (a # as) \<and> email_of ((a # as) ! 0) = Some (JStr email) \<and>
       (\<forall>f new. upsert_list f new email (a # as) = (a # as)[0 := f ((a # as) ! 0)])"
      by simp
    then show ?thesis by (intro exI[of _ 0])
  next
    case False
    with Cons.prems have "Some (JStr email) \<in> set (map email_of as)" by auto
    from Cons.IH[OF this] obtain i where i: "i < length as"
      "email_of (as ! i) = Some (JStr email)"
      "\<forall>f new. upsert_list f new email as = as[i := f (as ! i)]" by blast
    have "Suc i < length (a # as) \<and> email_of ((a # as) ! Suc i) = Some (JStr email) \<and>
       (\<forall>f new. upsert_list f new email (a # as) = (a # as)[Suc i := f ((a # as) ! Suc i)])"
      using False i by simp
    then show ?thesis by (intro exI[of _ "Suc i"])
  qed
qed

text \<open>
  Claim C10. When team T's list holds an account with email E (and every account of the
  list carries an email), \<open>add_account_to_tracker\<close> replaces one account, at an index i
  where the email is E, by an account that differs from it in the keys \<open>status\<close> and
  \<open>updated_at\<close> only: \<open>created_at\<close>, \<open>password\<close>, \<open>role\<close> and every other key keep their
  values. The rest of T's list, every other team and \<open>last_updated\<close> are unchanged: the
  new tracker is the old one with T's list updated at index i.
  \<open>add_account_with_password\<close> does the same and overwrites \<open>password\<close> as well.
\<close>

theorem tracker_update_frame:
  assumes "map_of (teams tr) T = Some accounts"
    and "list_all (\<lambda>a. map_of a ''email'' \<noteq> None) accounts"
    and "Some (JStr E) \<in> set (map (\<lambda>a. map_of a ''email'') accounts)"
  shows "\<exists>i<length accounts. \<exists>a1 a2.
     map_of (accounts ! i) ''email'' = Some (JStr E) \<and>
     add_account_to_tracker tr T E status now1 now2 =
       Inr (tr\<lparr>teams := AList.update T (accounts[i := a1]) (teams tr)\<rparr>) \<and>
     (\<forall>k. k \<noteq> ''status'' \<and> k \<noteq> ''updated_at'' \<longrightarrow> map_of a1 k = map_of (accounts ! i) k) \<and>
     map_of a1 ''status'' = Some (JStr status) \<and> map_of a1 ''updated_at'' = Some (JStr now1) \<and>
     add_account_with_password tr T E password status now1 now2 =
       Inr (tr\<lparr>teams := AList.update T (accounts[i := a2]) (teams tr)\<rparr>) \<and>
     (\<forall>k. k \<noteq> ''status'' \<and> k \<noteq> ''password'' \<and> k \<noteq> ''updated_at'' \<longrightarrow>
          map_of a2 k = map_of (accounts ! i) k) \<and>
     map_of a2 ''status'' = Some (JStr status) \<and> map_of a2 ''password'' = Some (JStr password) \<and>
     map_of a2 ''updated_at'' = Some (JStr now1)"
proof -
  let ?f1 = "\<lambda>account. AList.update ''updated_at'' (JStr now1)
                    (AList.update ''status'' (JStr status) account)"
  let ?n1 = "[(''email'', JStr E), (''status'', JStr status),
        (''created_at'', JStr now1), (''updated_at'', JStr now2)]"
  let ?f2 = "\<lambda>account. AList.update ''updated_at'' (JStr now1)
                    (AList.update ''password'' (JStr password)
                      (AList.update ''status'' (JStr status) account))"
  let ?n2 = "[(''email'', JStr E), (''password'', JStr password), (''status'', JStr status),
        (''role'', JStr ''member''), (''created_at'', JStr now1), (''updated_at'', JStr now2)]"
  have ta: "team_accounts tr T = accounts" using assms(1) by (simp add: team_accounts_def)
  have em: "list_all (\<lambda>a. email_of a \<noteq> None) (team_accounts tr T)"
    using assms(2) ta by (simp add: email_of_def)
  have mem: "Some (JStr E) \<in> set (map email_of accounts)"
    using assms(3) by (simp add: email_of_def)
  from upsert_list_first[OF mem] obtain i where i: "i < length accounts"
    "email_of (accounts ! i) = Some (JStr E)"
    "\<And>f new. upsert_list f new E accounts = accounts[i := f (accounts ! i)]" by blast
  have e1: "add_account_to_tracker tr T E status now1 now2 =
       Inr (tr\<lparr>teams := AList.update T (accounts[i := ?f1 (accounts ! i)]) (teams tr)\<rparr>)"
    using i(3)[of ?f1 ?n1] ta by (simp add: add_account_to_tracker_def upsert_with_eq[OF em])
  have e2: "add_account_with_password tr T E password status now1 now2 =
       Inr (tr\<lparr>teams := AList.update T (accounts[i := ?f2 (accounts ! i)]) (teams tr)\<rparr>)"
    using i(3)[of ?f2 ?n2] ta by (simp add: add_account_with_password_def upsert_with_eq[OF em])
  have k1: "\<forall>k. k \<noteq> ''status'' \<and> k \<noteq> ''updated_at'' \<longrightarrow>
      map_of (?f1 (accounts ! i)) k = map_of (accounts ! i) k"
    by (simp add: map_of_update_other)
  have k2: "\<forall>k. k \<noteq> ''status'' \<and> k \<noteq> ''password'' \<and> k \<noteq> ''updated_at'' \<longrightarrow>
      map_of (?f2 (accounts ! i)) k = map_of (accounts ! i) k"
    by (simp add: map_of_update_other)
  have s1: "map_of (?f1 (accounts ! i)) ''status'' = Some (JStr status)"
    "map_of (?f1 (accounts ! i)) ''updated_at'' = Some (JStr now1)"
    by (simp_all add: update_conv')
  have s2: "map_of (?f2 (accounts ! i)) ''status'' = Some (JStr status)"
    "map_of (?f2 (accounts ! i)) ''password'' = Some (JStr password)"
    "map_of (?f2 (accounts ! i)) ''updated_at'' = Some (JStr now1)"
    by (simp_all add: update_conv')
  have em_i: "map_of (accounts ! i) ''email'' = Some (JStr E)" using i(2) by (simp add: email_of_def)
  show ?thesis
    apply (rule exI[of _ i])
    apply (rule conjI[OF i(1)])
    apply (rule exI[of _ "?f1 (accounts ! i)"])
    apply (rule exI[of _ "?f2 (accounts ! i)"])
    apply (intro conjI em_i e1 e2 k1 k2 s1 s2)
    done
qed

theorem tracker_update_frame_witness:
  "map_of (teams example_tracker) ''alpha'' = Some example_accounts \<and>
   list_all (\<lambda>a. map_of a ''email'' \<noteq> None) example_accounts \<and>
   Some (JStr ''u1@x.com'') \<in> set (map (\<lambda>a. map_of a ''email'') example_accounts) \<and>
   (\<exists>i a1. add_account_to_tracker example_tracker ''alpha'' ''u1@x.com'' ''authorized'' ''t1'' ''t2'' =
       Inr (example_tracker\<lparr>teams := AList.update ''alpha'' (example_accounts[i := a1])
             (teams example_tracker)\<rparr>) \<and>
       map_of a1 ''status'' = Some (JStr ''authorized''))"
proof -
  have h1: "map_of (teams example_tracker) ''alpha'' = Some example_accounts"
    by (simp add: example_tracker_def example_accounts_def)
  have h2: "list_all (\<lambda>a. map_of a ''email'' \<noteq> None) example_accounts"
    by (simp add: example_accounts_def)
  have h3: "Some (JStr ''u1@x.com'') \<in> set (map (\<lambda>a. map_of a ''email'') example_accounts)"
    by (simp add: example_accounts_def)
  from tracker_update_frame[OF h1 h2 h3, of "''authorized''" "''t1''" "''t2''" "''pw''"]
  have "\<exists>i a1. add_account_to_tracker example_tracker ''alpha'' ''u1@x.com'' ''authorized'' ''t1'' ''t2'' =
       Inr (example_tracker\<lparr>teams := AList.update ''alpha'' (example_accounts[i := a1])
             (teams example_tracker)\<rparr>) \<and>
       map_of a1 ''status'' = Some (JStr ''authorized'')"
    by (elim exE conjE, intro exI conjI) assumption+
  with h1 h2 h3 show ?thesis by (intro conjI)
qed

section \<open>CPA polling: proofs\<close>

lemma check_not_ok:
  assumes "responses w = [] \<or> \<not> reports_ok (hd (responses w))"
  shows "\<exists>msg. cpa_check_auth_status b s w =
           ((False, msg), w\<lparr>responses := tl (responses w), sent := sent w @ [status_request b s]\<rparr>)"
proof (cases "responses w")
  case Nil
  then show ?thesis
    by (simp add: cpa_check_auth_status_def http_call_def status_request_def)
next
  case (Cons r rs)
  with assms have "\<not> reports_ok r" by simp
  then show ?thesis using Cons
    by (auto simp: cpa_check_auth_status_def http_call_def status_request_def reports_ok_def
        py_get_def split: http_result.splits option.splits json.splits sum.splits)
qed

lemma poll_loop_never_ok:
  assumes "0 \<le> interval"
  shows "list_all (\<lambda>r. \<not> reports_ok r) (take n (responses w)) \<Longrightarrow>
     \<exists>lines. poll_loop b interval m s attempt n w =
        (Inr False,
         w\<lparr>responses := drop n (responses w),
           sent := sent w @ replicate n (status_request b s),
           slept := slept w @ replicate n interval,
           logged := logged w @ lines\<rparr>) \<and>
        list_all (\<lambda>l. fst l = ProgressInline) lines"
proof (induction n arbitrary: w attempt)
  case 0
  have "poll_loop b interval m s attempt 0 w =
        (Inr False,
         w\<lparr>responses := drop 0 (responses w),
           sent := sent w @ replicate 0 (status_request b s),
           slept := slept w @ replicate 0 interval,
           logged := logged w @ []\<rparr>)" by simp
  then show ?case by (intro exI[of _ "[]"]) simp
next
  case (Suc n)
  have first: "responses w = [] \<or> \<not> reports_ok (hd (responses w))"
    using Suc.prems by (cases "responses w") auto
  from check_not_ok[OF first, of b s] obtain msg where
    chk: "cpa_check_auth_status b s w =
           ((False, msg), w\<lparr>responses := tl (responses w), sent := sent w @ [status_request b s]\<rparr>)"
    by blast
  let ?line = "(ProgressInline, (''CPA polling {}/{}: {}'',
                         [JInt (int attempt + 1), JInt m, JStr (fst msg)]))"
  let ?w3 = "w\<lparr>responses := tl (responses w), sent := sent w @ [status_request b s],
               logged := logged w @ [?line], slept := slept w @ [interval]\<rparr>"
  have step: "poll_loop b interval m s attempt (Suc n) w = poll_loop b interval m s (Suc attempt) n ?w3"
    using chk assms by (simp add: log_def sleep_def Let_def)
  have rest: "list_all (\<lambda>r. \<not> reports_ok r) (take n (responses ?w3))"
    using Suc.prems by (cases "responses w") auto
  from Suc.IH[OF rest, of "Suc attempt"] obtain lines where
    ih: "poll_loop b interval m s (Suc attempt) n ?w3 =
        (Inr False,
         ?w3\<lparr>responses := drop n (responses ?w3),
           sent := sent ?w3 @ replicate n (status_request b s),
           slept := slept ?w3 @ replicate n interval,
           logged := logged ?w3 @ lines\<rparr>)"
    and pl: "list_all (\<lambda>l. fst l = ProgressInline) lines" by blast
  have eq: "?w3\<lparr>responses := drop n (responses ?w3),
           sent := sent ?w3 @ replicate n (status_request b s),
           slept := slept ?w3 @ replicate n interval,
           logged := logged ?w3 @ lines\<rparr> =
         w\<lparr>responses := drop (Suc n) (responses w),
           sent := sent w @ replicate (Suc n) (status_request b s),
           slept := slept w @ replicate (Suc n) interval,
           logged := logged w @ (?line # lines)\<rparr>"
    by (simp add: drop_Suc replicate_app_Cons_same)
  show ?case
    by (intro exI[of _ "?line # lines"]) (simp only: step ih eq, simp add: pl)
qed

lemma cpa_poll_never_ok:
  assumes "0 < interval" and "0 < max_retries"
    and "list_all (\<lambda>r. \<not> reports_ok r) (take (nat max_retries) (responses w))"
  shows "\<exists>w'. cpa_poll_auth_status b interval max_retries s w = (Inr False, w') \<and>
           sent w' = sent w @ replicate (nat max_retries) (status_request b s) \<and>
           slept w' = slept w @ replicate (nat max_retries) interval \<and>
           last (logged w') = timeout_line"
proof -
  let ?w0 = "log Step (''polling CPA authorization status (at most {}s)'', [JInt (interval * max_retries)]) w"
  have 0: "0 \<le> interval" using assms(1) by simp
  have r: "list_all (\<lambda>r. \<not> reports_ok r) (take (nat max_retries) (responses ?w0))"
    using assms(3) by (simp add: log_def)
  from poll_loop_never_ok[OF 0 r, of b max_retries s 0] obtain lines where
    lp: "poll_loop b interval max_retries s 0 (nat max_retries) ?w0 =
        (Inr False,
         ?w0\<lparr>responses := drop (nat max_retries) (responses ?w0),
           sent := sent ?w0 @ replicate (nat max_retries) (status_request b s),
           slept := slept ?w0 @ replicate (nat max_retries) interval,
           logged := logged ?w0 @ lines\<rparr>)" by blast
  show ?thesis
    by (simp add: cpa_poll_auth_status_def Let_def lp) (simp add: log_def timeout_line_def)
qed


text \<open>
  Claim C4. For every state token, positive poll interval and positive maximum number of
  retries: when none of the status checks of the run reports \<open>"ok"\<close> (the network's next
  \<open>max_retries\<close> answers are exceptions, other status codes, bodies that are not JSON or
  statuses other than \<open>"ok"\<close>), \<open>cpa_poll_auth_status\<close> sends exactly \<open>max_retries\<close> status
  requests, sleeps \<open>interval\<close> after each of them, and returns \<open>False\<close>; the last line it
  logs is the polling-timeout error. The function is total: it always returns.
\<close>

theorem cpa_poll_times_out:
  assumes "0 < interval" and "0 < max_retries"
    and "list_all (\<lambda>r. \<not> reports_ok r) (take (nat max_retries) (responses w))"
  shows "\<exists>w'. cpa_poll_auth_status b interval max_retries s w = (Inr False, w') \<and>
           sent w' = sent w @ replicate (nat max_retries) (status_request b s) \<and>
           slept w' = slept w @ replicate (nat max_retries) interval \<and>
           last (logged w') = timeout_line"
  using assms by (rule cpa_poll_never_ok)

theorem cpa_poll_times_out_witness:
  "list_all (\<lambda>r. \<not> reports_ok r) (take (nat 3) (responses pending_world)) \<and>
   (\<exists>w'. cpa_poll_auth_status ''http://cpa'' 1 3 ''st'' pending_world = (Inr False, w') \<and>
      length (sent w') = 3 \<and> slept w' = [1, 1, 1] \<and> last (logged w') = timeout_line)"
proof -
  have h: "list_all (\<lambda>r. \<not> reports_ok r) (take (nat 3) (responses pending_world))"
    by (simp add: pending_world_def reports_ok_def dict_get_def)
  from cpa_poll_times_out[OF _ _ h, of 1 "''http://cpa''" "''st''"]
  obtain w' where "cpa_poll_auth_status ''http://cpa'' 1 3 ''st'' pending_world = (Inr False, w')"
    "sent w' = sent pending_world @ replicate (nat 3) (status_request ''http://cpa'' ''st'')"
    "slept w' = slept pending_world @ replicate (nat 3) 1"
    "last (logged w') = timeout_line" by auto
  then have "cpa_poll_auth_status ''http://cpa'' 1 3 ''st'' pending_world = (Inr False, w') \<and>
      length (sent w') = 3 \<and> slept w' = [1, 1, 1] \<and> last (logged w') = timeout_line"
    by (simp add: pending_world_def numeral_3_eq_3)
  then have "\<exists>w'. cpa_poll_auth_status ''http://cpa'' 1 3 ''st'' pending_world = (Inr False, w') \<and>
      length (sent w') = 3 \<and> slept w' = [1, 1, 1] \<and> last (logged w') = timeout_line"
    by (rule exI)
  with h show ?thesis by (rule conjI)
qed

text \<open>
  Claim C8, as the code has it. The source reads \<open>_cpa.get("poll_interval", 2)\<close> and
  \<open>_cpa.get("poll_max_retries", 30)\<close>: the defaults are 2 seconds and 30 attempts, not 3
  and 20.
\<close>

theorem cpa_poll_defaults_counterexample:
  "CPA_POLL_INTERVAL [] \<noteq> Inr (JInt 3) \<and> CPA_POLL_MAX_RETRIES [] \<noteq> Inr (JInt 20)"
  by (simp add: CPA_POLL_INTERVAL_def CPA_POLL_MAX_RETRIES_def cpa_section_def dict_get_def
      py_get_def)

text \<open>
  Claim C8, amended. When the configuration has no \<open>cpa\<close> section, or one without
  \<open>poll_interval\<close> and \<open>poll_max_retries\<close>, the interval is 2 seconds and the maximum
  number of attempts is 30; a poll with these values whose checks never report \<open>"ok"\<close>
  makes 30 checks and sleeps 60 seconds in total.
\<close>

theorem cpa_poll_defaults:
  assumes "map_of cfg ''cpa'' = None \<or>
           (\<exists>sec. map_of cfg ''cpa'' = Some (JDict sec) \<and> map_of sec ''poll_interval'' = None \<and>
                  map_of sec ''poll_max_retries'' = None)"
    and "list_all (\<lambda>r. \<not> reports_ok r) (take 30 (responses w))"
  shows "CPA_POLL_INTERVAL cfg = Inr (JInt 2) \<and> CPA_POLL_MAX_RETRIES cfg = Inr (JInt 30) \<and>
         (\<exists>w'. cpa_poll_auth_status b 2 30 s w = (Inr False, w') \<and>
               length (sent w') = length (sent w) + 30 \<and>
               sum_list (slept w') = sum_list (slept w) + 60)"
proof -
  have i: "CPA_POLL_INTERVAL cfg = Inr (JInt 2)"
    using assms(1)
    by (auto simp: CPA_POLL_INTERVAL_def cpa_section_def dict_get_def py_get_def)
  have m: "CPA_POLL_MAX_RETRIES cfg = Inr (JInt 30)"
    using assms(1)
    by (auto simp: CPA_POLL_MAX_RETRIES_def cpa_section_def dict_get_def py_get_def)
  have h: "list_all (\<lambda>r. \<not> reports_ok r) (take (nat 30) (responses w))"
    using assms(2) by simp
  from cpa_poll_never_ok[OF _ _ h, of 2 b s] obtain w' where
    w': "cpa_poll_auth_status b 2 30 s w = (Inr False, w')"
      "sent w' = sent w @ replicate (nat 30) (status_request b s)"
      "slept w' = slept w @ replicate (nat 30) 2" by auto
  have "length (sent w') = length (sent w) + 30" using w'(2) by simp
  moreover have "sum_list (slept w') = sum_list (slept w) + 60"
    using w'(3) by (simp add: sum_list_replicate)
  ultimately have "\<exists>w'. cpa_poll_auth_status b 2 30 s w = (Inr False, w') \<and>
               length (sent w') = length (sent w) + 30 \<and>
               sum_list (slept w') = sum_list (slept w) + 60"
    using w'(1) by (intro exI[of _ w'] conjI)
  with i m show ?thesis by (intro conjI)
qed

theorem cpa_poll_defaults_witness:
  "map_of ([] :: pydict) ''cpa'' = None \<and>
   list_all (\<lambda>r. \<not> reports_ok r) (take 30 (responses idle_world)) \<and>
   CPA_POLL_INTERVAL [] = Inr (JInt 2) \<and> CPA_POLL_MAX_RETRIES [] = Inr (JInt 30) \<and>
   (\<exists>w'. cpa_poll_auth_status ''http://cpa'' 2 30 ''st'' idle_world = (Inr False, w') \<and>
         length (sent w') = length (sent idle_world) + 30 \<and>
         sum_list (slept w') = sum_list (slept idle_world) + 60)"
proof -
  have a: "map_of ([] :: pydict) ''cpa'' = None" by simp
  have h: "list_all (\<lambda>r. \<not> reports_ok r) (take 30 (responses idle_world))"
    by (simp add: idle_world_def)
  have "map_of ([] :: pydict) ''cpa'' = None \<or>
           (\<exists>sec. map_of ([] :: pydict) ''cpa'' = Some (JDict sec) \<and> map_of sec ''poll_interval'' = None \<and>
                  map_of sec ''poll_max_retries'' = None)" by simp
  from cpa_poll_defaults[OF this h, of "''http://cpa''" "''st''"] a h
  show ?thesis by (intro conjI) (elim conjE, assumption)+
qed

section \<open>Callback URLs: proofs\<close>

lemma starts_with_iff: "starts_with s p \<longleftrightarrow> (\<exists>t. s = p @ t)"
  by (induction s p rule: starts_with.induct) auto

lemma str_in_iff: "str_in sub s \<longleftrightarrow> (\<exists>a b. s = a @ sub @ b)"
proof (induction s)
  case Nil
  then show ?case by auto
next
  case (Cons c cs)
  have "(\<exists>a b. c # cs = a @ sub @ b) \<longleftrightarrow> (\<exists>b. c # cs = sub @ b) \<or> (\<exists>a b. cs = a @ sub @ b)"
  proof
    assume "\<exists>a b. c # cs = a @ sub @ b"
    then obtain a b where ab: "c # cs = a @ sub @ b" by blast
    show "(\<exists>b. c # cs = sub @ b) \<or> (\<exists>a b. cs = a @ sub @ b)"
    proof (cases a)
      case Nil
      with ab show ?thesis by auto
    next
      case (Cons x xs)
      with ab have "cs = xs @ sub @ b" by simp
      then show ?thesis by blast
    qed
  next
    assume "(\<exists>b. c # cs = sub @ b) \<or> (\<exists>a b. cs = a @ sub @ b)"
    then show "\<exists>a b. c # cs = a @ sub @ b"
    proof
      assume "\<exists>b. c # cs = sub @ b"
      then obtain b where "c # cs = [] @ sub @ b" by auto
      then show ?thesis by blast
    next
      assume "\<exists>a b. cs = a @ sub @ b"
      then obtain a b where "c # cs = (c # a) @ sub @ b" by auto
      then show ?thesis by blast
    qed
  qed
  then show ?case using Cons by (simp add: starts_with_iff)
qed

text \<open>
  Claim C5, as the code has it. Both functions test for the two substrings
  \<open>localhost:1455/auth/callback\<close> and \<open>code=\<close> anywhere in the URL. The URL below is
  recognised although its query has no \<open>code\<close> parameter (its only parameter is
  \<open>xcode\<close>): \<open>extract_code_from_url\<close> finds no code in it.
\<close>

theorem callback_url_code_param_counterexample:
  "is_cpa_callback_url ''http://localhost:1455/auth/callback?xcode=abc'' \<and>
   is_s2a_callback_url ''http://localhost:1455/auth/callback?xcode=abc'' \<and>
   extract_code_from_url ''http://localhost:1455/auth/callback?xcode=abc'' = None"
  by code_simp

text \<open>
  Claim C5, amended. \<open>is_cpa_callback_url\<close> and \<open>is_s2a_callback_url\<close> agree on every URL
  and return true exactly when the URL contains the text \<open>localhost:1455/auth/callback\<close>
  and the text \<open>code=\<close>; so they return true for
  \<open>http://localhost:1455/auth/callback?code=abc&state=xyz\<close> and false for
  \<open>http://localhost:1455/auth/callback?state=xyz\<close>.
\<close>

theorem callback_url_substrings:
  "is_s2a_callback_url url = is_cpa_callback_url url \<and>
   (is_cpa_callback_url url \<longleftrightarrow>
      ((\<exists>a b. url = a @ ''localhost:1455/auth/callback'' @ b) \<and> (\<exists>a b. url = a @ ''code='' @ b))) \<and>
   is_cpa_callback_url ''http://localhost:1455/auth/callback?code=abc&state=xyz'' \<and>
   \<not> is_cpa_callback_url ''http://localhost:1455/auth/callback?state=xyz''"
proof (intro conjI)
  show "is_s2a_callback_url url = is_cpa_callback_url url"
    by (simp add: is_s2a_callback_url_def is_cpa_callback_url_def)
  show "is_cpa_callback_url url \<longleftrightarrow>
      ((\<exists>a b. url = a @ ''localhost:1455/auth/callback'' @ b) \<and> (\<exists>a b. url = a @ ''code='' @ b))"
    unfolding is_cpa_callback_url_def str_in_iff by auto
  show "is_cpa_callback_url ''http://localhost:1455/auth/callback?code=abc&state=xyz''"
    by code_simp
  show "\<not> is_cpa_callback_url ''http://localhost:1455/auth/callback?state=xyz''"
    by code_simp
qed


section \<open>Team records: proofs\<close>

lemma parse_legacy:
  "parse_team_config legacy_record index =
     Inr [(''name'', JStr ''a''), (''account_id'', JStr ''1''), (''org_id'', JStr ''o1''),
          (''auth_token'', JStr ''tok''), (''owner_email'', JStr ''a@b.com''),
          (''owner_password'', JStr ''''), (''format'', JStr ''old''),
          (''raw'', JDict legacy_record)]"
  by (simp add: parse_team_config_def legacy_record_def dict_get_def py_get_def pybind_def
      py_contains_def split_at_first_def)

lemma parse_current:
  "parse_team_config current_record index =
     Inr [(''name'', JStr ''x''), (''account_id'', JStr ''''), (''org_id'', JStr ''''),
          (''auth_token'', JStr ''t1''), (''owner_email'', JStr ''x@y.com''),
          (''owner_password'', JStr ''''), (''needs_login'', JBool False),
          (''authorized'', JBool True), (''format'', JStr ''new''),
          (''raw'', JDict current_record)]"
  by (simp add: parse_team_config_def current_record_def dict_get_def truthy_def Let_def)

lemma parse_format_new:
  "dict_get t ''account'' JNull = JStr email \<Longrightarrow>
   \<exists>team. parse_team_config t index = Inr team \<and> map_of team ''format'' = Some (JStr ''new'')"
  by (simp add: parse_team_config_def Let_def)

lemma parse_format_old:
  assumes "\<forall>email. dict_get t ''account'' JNull \<noteq> JStr email"
    and "parse_team_config t index = Inr team"
  shows "map_of team ''format'' = Some (JStr ''old'')"
proof -
  from assms(1) have "parse_team_config t index =
          pybind (py_get (dict_get t ''user'' (JDict [])) ''email'' (JStr (team_default_name index)))
            (\<lambda>email.
          pybind (py_contains ''@'' email) (\<lambda>has_at.
          pybind (if has_at then split_at_first email else Inr (team_default_name index))
            (\<lambda>name.
          pybind (py_get (dict_get t ''account'' (JDict [])) ''id'' (JStr '''')) (\<lambda>account_id.
          pybind (py_get (dict_get t ''account'' (JDict [])) ''organizationId'' (JStr ''''))
            (\<lambda>org_id.
          Inr [(''name'', JStr name),
               (''account_id'', account_id),
               (''org_id'', org_id),
               (''auth_token'', dict_get t ''accessToken'' (JStr '''')),
               (''owner_email'', email),
               (''owner_password'', JStr ''''),
               (''format'', JStr ''old''),
               (''raw'', JDict t)])))))"
    by (cases "dict_get t ''account'' JNull") (simp_all add: parse_team_config_def)
  with assms(2) show ?thesis
    by (auto simp: pybind_def split: sum.splits)
qed

text \<open>
  Claim C3. For the legacy record of the specification the normalized team has
  \<open>auth_token = "tok"\<close>, \<open>org_id = "o1"\<close> and \<open>name = "a"\<close>; for the current record it has
  \<open>needs_login = false\<close>, \<open>authorized = true\<close> and \<open>name = "x"\<close> (at every index). The
  format is chosen by whether the \<open>account\<close> field is a string: when it is, the record
  is normalized, without an exception, as format \<open>new\<close>; when it is not, every team the
  function returns has format \<open>old\<close>.
\<close>

theorem parse_team_config_formats:
  "(\<exists>team. parse_team_config legacy_record index = Inr team \<and>
       map_of team ''auth_token'' = Some (JStr ''tok'') \<and>
       map_of team ''org_id'' = Some (JStr ''o1'') \<and>
       map_of team ''name'' = Some (JStr ''a'')) \<and>
   (\<exists>team. parse_team_config current_record index = Inr team \<and>
       map_of team ''needs_login'' = Some (JBool False) \<and>
       map_of team ''authorized'' = Some (JBool True) \<and>
       map_of team ''name'' = Some (JStr ''x'')) \<and>
   ((\<exists>email. map_of t ''account'' = Some (JStr email)) \<longrightarrow>
      (\<exists>team. parse_team_config t index = Inr team \<and> map_of team ''format'' = Some (JStr ''new''))) \<and>
   (\<not> (\<exists>email. map_of t ''account'' = Some (JStr email)) \<longrightarrow>
      (\<forall>team. parse_team_config t index = Inr team \<longrightarrow> map_of team ''format'' = Some (JStr ''old'')))"
proof (intro conjI impI allI)
  show "\<exists>team. parse_team_config legacy_record index = Inr team \<and>
       map_of team ''auth_token'' = Some (JStr ''tok'') \<and>
       map_of team ''org_id'' = Some (JStr ''o1'') \<and>
       map_of team ''name'' = Some (JStr ''a'')"
    by (simp add: parse_legacy)
  show "\<exists>team. parse_team_config current_record index = Inr team \<and>
       map_of team ''needs_login'' = Some (JBool False) \<and>
       map_of team ''authorized'' = Some (JBool True) \<and>
       map_of team ''name'' = Some (JStr ''x'')"
    by (simp add: parse_current)
next
  assume "\<exists>email. map_of t ''account'' = Some (JStr email)"
  then obtain email where "dict_get t ''account'' JNull = JStr email"
    by (auto simp: dict_get_def)
  then show "\<exists>team. parse_team_config t index = Inr team \<and> map_of team ''format'' = Some (JStr ''new'')"
    by (rule parse_format_new)
next
  fix team
  assume n: "\<not> (\<exists>email. map_of t ''account'' = Some (JStr email))"
    and p: "parse_team_config t index = Inr team"
  have "\<forall>email. dict_get t ''account'' JNull \<noteq> JStr email"
    using n by (auto simp: dict_get_def split: option.splits)
  then show "map_of team ''format'' = Some (JStr ''old'')" using p by (rule parse_format_old)
qed

theorem parse_team_config_formats_witness:
  "map_of current_record ''account'' = Some (JStr ''x@y.com'') \<and>
   (\<exists>team. parse_team_config current_record 0 = Inr team \<and>
      map_of team ''format'' = Some (JStr ''new'')) \<and>
   \<not> (\<exists>email. map_of legacy_record ''account'' = Some (JStr email)) \<and>
   (\<exists>team. parse_team_config legacy_record 0 = Inr team \<and> map_of team ''format'' = Some (JStr ''old''))"
proof -
  have a: "map_of current_record ''account'' = Some (JStr ''x@y.com'')"
    by (simp add: current_record_def)
  have b: "\<not> (\<exists>email. map_of legacy_record ''account'' = Some (JStr email))"
    by (simp add: legacy_record_def)
  note fmt = parse_team_config_formats[of 0]
  have c: "\<exists>team. parse_team_config current_record 0 = Inr team \<and>
      map_of team ''format'' = Some (JStr ''new'')"
  proof -
    have ex: "\<exists>email. map_of current_record ''account'' = Some (JStr email)"
      using a by (rule exI)
    from fmt[of current_record, THEN conjunct2, THEN conjunct2, THEN conjunct1] ex
    show ?thesis by (rule mp)
  qed
  have d: "\<exists>team. parse_team_config legacy_record 0 = Inr team \<and> map_of team ''format'' = Some (JStr ''old'')"
    using fmt[of legacy_record] b by (simp add: parse_legacy)
  from a c b d show ?thesis by (intro conjI)
qed

section \<open>Existence checks: proofs\<close>

lemma str_or_absent_get:
  "str_or_absent (map_of d k) \<Longrightarrow> dict_get d k (JStr '''') = JStr (str_or_empty (map_of d k))"
proof (cases "map_of d k")
  case None
  then show ?thesis by (simp add: dict_get_def str_or_empty_def)
next
  case (Some x)
  assume "str_or_absent (map_of d k)"
  with Some show ?thesis
    by (cases x) (simp_all add: dict_get_def str_or_empty_def str_or_absent_def)
qed

lemma named_account_name:
  assumes "named_account a"
  shows "py_get a ''name'' (JStr '''') = Inr (JStr (account_name a))"
proof -
  from assms obtain d where d: "a = JDict d"
    by (cases a) (simp_all add: named_account_def)
  from assms d have "str_or_absent (map_of d ''name'')"
    by (simp add: named_account_def)
  from str_or_absent_get[OF this] d show ?thesis
    by (simp add: py_get_def account_name_def)
qed

lemma listed_account_named: "listed_account a \<Longrightarrow> named_account a"
  by (cases a) (simp_all add: listed_account_def named_account_def)

lemma listed_account_credentials:
  assumes "listed_account a"
  obtains c where
    "py_get a ''credentials'' (JDict []) = Inr (JDict c)"
    "py_get (JDict c) ''email'' (JStr '''') = Inr (JStr (credential_email a))"
proof -
  from assms obtain d where d: "a = JDict d"
    by (cases a) (simp_all add: listed_account_def)
  show ?thesis
  proof (cases "map_of d ''credentials''")
    case None
    have "py_get a ''credentials'' (JDict []) = Inr (JDict [])"
      using None d by (simp add: py_get_def dict_get_def)
    moreover have "py_get (JDict []) ''email'' (JStr '''') = Inr (JStr (credential_email a))"
      using None d by (simp add: py_get_def dict_get_def credential_email_def str_or_empty_def)
    ultimately show ?thesis by (rule that)
  next
    case (Some x)
    with assms d obtain c where c: "x = JDict c"
      by (cases x) (simp_all add: listed_account_def)
    from assms d Some c have em: "str_or_absent (map_of c ''email'')"
      by (simp add: listed_account_def)
    have "py_get a ''credentials'' (JDict []) = Inr (JDict c)"
      using Some c d by (simp add: py_get_def dict_get_def)
    moreover have "py_get (JDict c) ''email'' (JStr '''') = Inr (JStr (credential_email a))"
      using str_or_absent_get[OF em] Some c d by (simp add: py_get_def credential_email_def)
    ultimately show ?thesis by (rule that)
  qed
qed

lemma crs_match_loop_named:
  "list_all named_account accounts \<Longrightarrow>
   crs_match_loop str_lower (JStr E) accounts =
     Inr (list_ex (\<lambda>a. str_lower (account_name a) = str_lower E) accounts)"
proof (induction accounts)
  case Nil
  then show ?case by simp
next
  case (Cons a as)
  then have "named_account a" by simp
  then have "py_get a ''name'' (JStr '''') = Inr (JStr (account_name a))"
    by (rule named_account_name)
  then show ?case using Cons by (simp add: pybind_def py_lower_def)
qed

lemma s2a_match_loop_listed:
  "list_all listed_account accounts \<Longrightarrow>
   s2a_match_loop str_lower (JStr E) accounts =
     Inr (list_ex (\<lambda>a. str_lower (account_name a) = str_lower E \<or>
                        str_lower (credential_email a) = str_lower E) accounts)"
proof (induction accounts)
  case Nil
  then show ?case by simp
next
  case (Cons a as)
  then have l: "listed_account a" by simp
  then have n: "py_get a ''name'' (JStr '''') = Inr (JStr (account_name a))"
    by (intro named_account_name listed_account_named)
  from l obtain c where "py_get a ''credentials'' (JDict []) = Inr (JDict c)"
    "py_get (JDict c) ''email'' (JStr '''') = Inr (JStr (credential_email a))"
    by (rule listed_account_credentials)
  with n show ?case using Cons by (simp add: pybind_def py_lower_def)
qed

lemma crs_check_named:
  assumes "list_all named_account accounts"
    and "crs_get_accounts crs_base w = (JList accounts, w1)"
  shows "crs_check_account_exists str_lower crs_base (JStr E) w =
           (Inr (list_ex (\<lambda>a. str_lower (account_name a) = str_lower E) accounts), w1)"
  using assms
  by (simp add: crs_check_account_exists_def py_iter_def pybind_def crs_match_loop_named)

lemma s2a_check_listed:
  assumes "list_all listed_account accounts"
    and "s2a_get_accounts s2a_base platform v = (JList accounts, v1)"
  shows "s2a_check_account_exists str_lower s2a_base (JStr E) platform v =
           (Inr (list_ex (\<lambda>a. str_lower (account_name a) = str_lower E \<or>
                              str_lower (credential_email a) = str_lower E) accounts), v1)"
  using assms
  by (simp add: s2a_check_account_exists_def py_iter_def pybind_def s2a_match_loop_listed)

lemma lowers_foo:
  assumes "lowers_ascii str_lower"
  shows "str_lower ''Foo@Bar.com'' = str_lower ''foo@bar.com''"
proof -
  have a: "is_ascii ''Foo@Bar.com''" by code_simp
  have b: "is_ascii ''foo@bar.com''" by code_simp
  have c: "ascii_lower ''Foo@Bar.com'' = ascii_lower ''foo@bar.com''" by code_simp
  from assms a b c show ?thesis by (simp add: lowers_ascii_def)
qed

lemma list_ex_lowered:
  assumes "str_lower x = str_lower y" and "list_ex (\<lambda>a. g a = y) accounts"
  shows "list_ex (\<lambda>a. str_lower (g a) = str_lower x) accounts"
  using assms by (auto simp: list_ex_iff)

lemma list_ex_disjI1: "list_ex P xs \<Longrightarrow> list_ex (\<lambda>a. P a \<or> Q a) xs"
  by (auto simp: list_ex_iff)

lemma crs_check_found:
  assumes "str_lower x = str_lower y" and "list_ex (\<lambda>a. account_name a = y) accounts"
    and "list_all named_account accounts"
    and "crs_get_accounts crs_base w = (JList accounts, w1)"
  shows "crs_check_account_exists str_lower crs_base (JStr x) w = (Inr True, w1)"
  using crs_check_named[OF assms(3,4), of str_lower x] list_ex_lowered[OF assms(1,2)]
  by simp

lemma s2a_check_found:
  assumes "str_lower x = str_lower y" and "list_ex (\<lambda>a. account_name a = y) accounts"
    and "list_all listed_account accounts"
    and "s2a_get_accounts s2a_base platform v = (JList accounts, v1)"
  shows "s2a_check_account_exists str_lower s2a_base (JStr x) platform v = (Inr True, v1)"
  using s2a_check_listed[OF assms(3,4), of str_lower x]
    list_ex_disjI1[OF list_ex_lowered[OF assms(1,2)],
      of "\<lambda>a. str_lower (credential_email a) = str_lower x"]
  by simp

text \<open>
  Claim C6, amended. Let \<open>accounts\<close> be the list the listing call returns, and compare
  strings after \<open>str.lower()\<close> (any function \<open>str_lower\<close>). When every listed account is a
  dict whose name, when present, is a string, \<open>crs_check_account_exists(E)\<close> returns true
  exactly when the name of some listed account equals E after lowering: the CRS check
  reads no credential email. When moreover the credentials of every listed account,
  when present, are a dict whose email, when present, is a string,
  \<open>s2a_check_account_exists(E)\<close> returns true exactly when the name or the credential
  email of some listed account equals E after lowering. A missing name or credential
  email counts as the empty string. In particular, as \<open>str.lower\<close> maps the ASCII capitals
  to the small letters, both return true for \<open>Foo@Bar.com\<close> when an account named
  \<open>foo@bar.com\<close> is listed.
\<close>

theorem account_exists_matches:
  "(list_all named_account accounts \<longrightarrow> crs_get_accounts crs_base w = (JList accounts, w1) \<longrightarrow>
      crs_check_account_exists str_lower crs_base (JStr E) w =
        (Inr (list_ex (\<lambda>a. str_lower (account_name a) = str_lower E) accounts), w1)) \<and>
   (list_all listed_account accounts \<longrightarrow>
      s2a_get_accounts s2a_base platform v = (JList accounts, v1) \<longrightarrow>
      s2a_check_account_exists str_lower s2a_base (JStr E) platform v =
        (Inr (list_ex (\<lambda>a. str_lower (account_name a) = str_lower E \<or>
                           str_lower (credential_email a) = str_lower E) accounts), v1)) \<and>
   (lowers_ascii str_lower \<longrightarrow> list_ex (\<lambda>a. account_name a = ''foo@bar.com'') accounts \<longrightarrow>
      (list_all named_account accounts \<longrightarrow> crs_get_accounts crs_base w = (JList accounts, w1) \<longrightarrow>
         crs_check_account_exists str_lower crs_base (JStr ''Foo@Bar.com'') w = (Inr True, w1)) \<and>
      (list_all listed_account accounts \<longrightarrow>
         s2a_get_accounts s2a_base platform v = (JList accounts, v1) \<longrightarrow>
         s2a_check_account_exists str_lower s2a_base (JStr ''Foo@Bar.com'') platform v =
           (Inr True, v1)))"
proof (intro conjI impI)
  assume "list_all named_account accounts" "crs_get_accounts crs_base w = (JList accounts, w1)"
  then show "crs_check_account_exists str_lower crs_base (JStr E) w =
        (Inr (list_ex (\<lambda>a. str_lower (account_name a) = str_lower E) accounts), w1)"
    by (rule crs_check_named)
next
  assume "list_all listed_account accounts"
    "s2a_get_accounts s2a_base platform v = (JList accounts, v1)"
  then show "s2a_check_account_exists str_lower s2a_base (JStr E) platform v =
        (Inr (list_ex (\<lambda>a. str_lower (account_name a) = str_lower E \<or>
                           str_lower (credential_email a) = str_lower E) accounts), v1)"
    by (rule s2a_check_listed)
next
  assume "lowers_ascii str_lower" "list_ex (\<lambda>a. account_name a = ''foo@bar.com'') accounts"
    "list_all named_account accounts" "crs_get_accounts crs_base w = (JList accounts, w1)"
  then show "crs_check_account_exists str_lower crs_base (JStr ''Foo@Bar.com'') w = (Inr True, w1)"
    by (intro crs_check_found[where y="''foo@bar.com''"] lowers_foo)
next
  assume "lowers_ascii str_lower" "list_ex (\<lambda>a. account_name a = ''foo@bar.com'') accounts"
    "list_all listed_account accounts"
    "s2a_get_accounts s2a_base platform v = (JList accounts, v1)"
  then show "s2a_check_account_exists str_lower s2a_base (JStr ''Foo@Bar.com'') platform v =
           (Inr True, v1)"
    by (intro s2a_check_found[where y="''foo@bar.com''"] lowers_foo)
qed

lemma crs_get_listing:
  "crs_get_accounts b (idle_world\<lparr>responses := [crs_listing accounts]\<rparr>) =
     (JList accounts, idle_world\<lparr>sent := [GET (b @ ''/admin/openai-accounts'') []]\<rparr>)"
  by (simp add: crs_get_accounts_def http_call_def idle_world_def crs_listing_def py_get_def
      dict_get_def truthy_def)

lemma s2a_get_listing:
  "s2a_get_accounts b ''openai'' (idle_world\<lparr>responses := [s2a_listing accounts]\<rparr>) =
     (JList accounts, idle_world\<lparr>sent := [GET (b @ ''/admin/accounts'') [(''platform'', ''openai'')]]\<rparr>)"
  by (simp add: s2a_get_accounts_def http_call_def idle_world_def s2a_listing_def py_get_def
      dict_get_def)

lemma lowers_ascii_ascii_lower: "lowers_ascii ascii_lower"
  by (simp add: lowers_ascii_def)

theorem account_exists_matches_witness:
  "lowers_ascii ascii_lower \<and>
   list_all listed_account foo_accounts \<and>
   list_ex (\<lambda>a. account_name a = ''foo@bar.com'') foo_accounts \<and>
   fst (crs_check_account_exists ascii_lower ''http://crs'' (JStr ''Foo@Bar.com'')
          (idle_world\<lparr>responses := [crs_listing foo_accounts]\<rparr>)) = Inr True \<and>
   fst (s2a_check_account_exists ascii_lower ''http://s2a'' (JStr ''Foo@Bar.com'') ''openai''
          (idle_world\<lparr>responses := [s2a_listing foo_accounts]\<rparr>)) = Inr True"
proof -
  have l: "list_all listed_account foo_accounts" by code_simp
  have n: "list_all named_account foo_accounts" by code_simp
  have f: "list_ex (\<lambda>a. account_name a = ''foo@bar.com'') foo_accounts" by code_simp
  note m = account_exists_matches[where str_lower = ascii_lower and accounts = foo_accounts,
      THEN conjunct2, THEN conjunct2, THEN mp, OF lowers_ascii_ascii_lower, THEN mp, OF f]
  have c: "crs_check_account_exists ascii_lower ''http://crs'' (JStr ''Foo@Bar.com'')
          (idle_world\<lparr>responses := [crs_listing foo_accounts]\<rparr>) =
        (Inr True, idle_world\<lparr>sent := [GET (''http://crs'' @ ''/admin/openai-accounts'') []]\<rparr>)"
    by (rule m[THEN conjunct1, THEN mp, OF n, THEN mp, OF crs_get_listing])
  have s: "s2a_check_account_exists ascii_lower ''http://s2a'' (JStr ''Foo@Bar.com'') ''openai''
          (idle_world\<lparr>responses := [s2a_listing foo_accounts]\<rparr>) =
        (Inr True, idle_world\<lparr>sent := [GET (''http://s2a'' @ ''/admin/accounts'')
                                              [(''platform'', ''openai'')]]\<rparr>)"
    by (rule m[THEN conjunct2, THEN mp, OF l, THEN mp, OF s2a_get_listing])
  have c': "fst (crs_check_account_exists ascii_lower ''http://crs'' (JStr ''Foo@Bar.com'')
          (idle_world\<lparr>responses := [crs_listing foo_accounts]\<rparr>)) = Inr True"
    by (simp only: c fst_conv)
  have s': "fst (s2a_check_account_exists ascii_lower ''http://s2a'' (JStr ''Foo@Bar.com'') ''openai''
          (idle_world\<lparr>responses := [s2a_listing foo_accounts]\<rparr>)) = Inr True"
    by (simp only: s fst_conv)
  from lowers_ascii_ascii_lower l f c' s' show ?thesis by (intro conjI)
qed

text \<open>
  Claim C6, as the code has it. The CRS check compares names only: an account whose
  embedded email is \<open>foo@bar.com\<close> and whose name is something else is not found. (All the
  strings are ASCII, on which \<open>str.lower\<close> is \<open>ascii_lower\<close>.)
\<close>

theorem crs_account_exists_counterexample:
  "credential_email credential_only_account = ''foo@bar.com'' \<and>
   fst (crs_check_account_exists ascii_lower ''http://crs'' (JStr ''foo@bar.com'')
          (idle_world\<lparr>responses := [crs_listing [credential_only_account]]\<rparr>)) = Inr False"
  by code_simp

section \<open>Team-owner synchronisation: proofs\<close>

lemma map_of_filter_key:
  "map_of (filter (\<lambda>p. P (fst p)) xs) k = (if P k then map_of xs k else None)"
  by (induction xs) auto

lemma include_team_owners_unbound:
  "load_global (crs_service_globals config_ns) ''INCLUDE_TEAM_OWNERS'' =
     Inl (NameError ''INCLUDE_TEAM_OWNERS'')"
proof -
  have "''INCLUDE_TEAM_OWNERS'' \<notin> set crs_service_imports"
    by (simp add: crs_service_imports_def)
  then have "map_of (crs_service_globals config_ns) ''INCLUDE_TEAM_OWNERS'' = None"
    unfolding crs_service_globals_def
    by (simp add: map_of_filter_key[where P="\<lambda>k. k \<in> set crs_service_imports"])
  then show ?thesis by (simp add: load_global_def)
qed

text \<open>
  In a namespace that binds \<open>INCLUDE_TEAM_OWNERS\<close> to a false value the function returns
  0 without touching the network, as \<open>add_team_owners_to_tracker\<close> of utils.py does
  (that function imports the name itself).
\<close>

lemma crs_sync_disabled:
  "map_of g ''INCLUDE_TEAM_OWNERS'' = Some v \<Longrightarrow> \<not> truthy v \<Longrightarrow>
   crs_sync_team_owners str_lower g w = (Inr 0, w)"
  by (simp add: crs_sync_team_owners_def load_global_def)

text \<open>
  Claim C7. The claim says that \<open>crs_sync_team_owners\<close> never raises and returns 0 when
  team-owner inclusion is disabled or the team list is empty. In the namespace of
  crs_service.py, whatever the configuration, its first statement \<open>if not
  INCLUDE_TEAM_OWNERS\<close> raises \<open>NameError\<close>: the module's import statement does not import
  that name. No request is sent and nothing is logged.
\<close>

theorem crs_sync_team_owners_raises:
  "crs_sync_team_owners str_lower (crs_service_globals config_ns) w =
     (Inl (NameError ''INCLUDE_TEAM_OWNERS''), w)"
  by (simp add: crs_sync_team_owners_def include_team_owners_unbound)

text \<open>The call with team-owner inclusion disabled and an empty team list.\<close>

theorem crs_sync_team_owners_raises_example:
  "map_of example_config_ns ''INCLUDE_TEAM_OWNERS'' = Some (JBool False) \<and>
   crs_sync_team_owners ascii_lower (crs_service_globals example_config_ns) idle_world =
     (Inl (NameError ''INCLUDE_TEAM_OWNERS''), idle_world)"
  using crs_sync_team_owners_raises[of ascii_lower example_config_ns idle_world]
  by (simp add: example_config_ns_def)

section \<open>Loading the tracker: proofs\<close>








end
